theory Spec2Isabelle
  imports Complex_Main "HOL-Library.Log_Nat" "HOL-Library.Word"
begin

section \<open>Data model\<close>

text \<open>
  JavaScript strings are sequences of UTF-16 code units. Identities (Mongo ObjectIds of
  users and of tales) are opaque values compared for equality; they are numbered here.
  The id of a request is a well-formed ObjectId: one that is not makes the driver throw
  before any controller logic runs.
\<close>

type_synonym code_unit = "16 word"
type_synonym jsstring = "code_unit list"
type_synonym oid = nat

definition js :: "string \<Rightarrow> jsstring" where
  "js s = map of_char s"

section \<open>Numbers\<close>

text \<open>
  A JavaScript Number is an IEEE 754 double: a finite double is the rational it denotes,
  and there are the two infinities. Not-a-number is refused by the cast of the schema
  and comes out of none of the operations below; the two zeros are not told apart, as
  no operation below tells them apart.
\<close>

datatype number = Finite rat | PosInfinity | NegInfinity

text \<open>The binary exponent of a positive rational: \<open>2 powi e \<le> x < 2 powi (e + 1)\<close>.\<close>

definition ilog2 :: "rat \<Rightarrow> int" where
  "ilog2 x = (let (p, q) = quotient_of x; d = bitlen p - bitlen q
              in if 2 powi d \<le> x then d else d - 1)"

definition roundHalfEven :: "rat \<Rightarrow> int" where
  "roundHalfEven k =
     (let f = \<lfloor>k\<rfloor>; r = k - of_int f
      in if r < 1 / 2 then f else if 1 / 2 < r then f + 1 else if even f then f else f + 1)"

text \<open>
  Rounding to the nearest double, ties to the even significand: 53 significant bits,
  exponents from -1022 (below that the spacing stays \<open>2 powi - 1074\<close>), and overflow to an
  infinity when the rounded magnitude reaches \<open>2 ^ 1024\<close>.
\<close>

definition toDouble :: "rat \<Rightarrow> number" where
  "toDouble x =
     (if x = 0 then Finite 0
      else
        (let e = max (ilog2 \<bar>x\<bar>) (- 1022);
             u = 2 powi (e - 52);
             y = of_int (roundHalfEven (x / u)) * u
         in if 2 ^ 1024 \<le> \<bar>y\<bar> then (if 0 < x then PosInfinity else NegInfinity)
            else Finite y))"

text \<open>\<^verbatim>\<open>x + c\<close> for a finite \<open>c\<close> (\<^verbatim>\<open>x - 1\<close> is \<^verbatim>\<open>x + (-1)\<close>), and \<^verbatim>\<open>Math.max\<close>.\<close>

fun addNumber :: "number \<Rightarrow> rat \<Rightarrow> number" where
  "addNumber (Finite a) c = toDouble (a + c)"
| "addNumber PosInfinity c = PosInfinity"
| "addNumber NegInfinity c = NegInfinity"

fun mathMax :: "number \<Rightarrow> number \<Rightarrow> number" where
  "mathMax PosInfinity y = PosInfinity"
| "mathMax x PosInfinity = PosInfinity"
| "mathMax NegInfinity y = y"
| "mathMax x NegInfinity = x"
| "mathMax (Finite a) (Finite b) = Finite (max a b)"

section \<open>Documents\<close>

text \<open>
  The document of \<^verbatim>\<open>models/Tale.js\<close>. \<^verbatim>\<open>likes\<close> is a Number without validators,
  \<^verbatim>\<open>likedBy\<close> an array of user ids: order and duplicates are representable, as in the
  schema. The timestamps are read by no operation below.
\<close>

record tale =
  title :: jsstring
  content :: jsstring
  ageRange :: jsstring
  topic :: jsstring
  author :: oid
  isPublic :: bool
  likes :: number
  likedBy :: "oid list"

text \<open>
  The collection of tales, the counter from which fresh ids of new documents are drawn,
  the version key (\<^verbatim>\<open>__v\<close>) that Mongoose keeps beside every document, and the
  collection of users: the name of each user that has a document.
\<close>

record db =
  tales :: "oid \<Rightarrow> tale option"
  nextId :: oid
  versions :: "oid \<Rightarrow> nat"
  users :: "oid \<Rightarrow> jsstring option"

datatype field = Title | Content | AgeRange | Topic

text \<open>
  \<open>NotFound\<close> (404), \<open>Forbidden\<close> (403), \<open>BadRequest\<close> (400) and \<open>GenerationFailed\<close> (500)
  are answered by the controllers themselves; \<open>ValidationError\<close> (with the paths that
  failed) and \<open>VersionError\<close> are thrown by the model layer, \<open>TypeError\<close> by reading a
  property of \<^verbatim>\<open>null\<close>, and all three are handed to \<^verbatim>\<open>next(error)\<close>.
\<close>

datatype error =
  NotFound | Forbidden | BadRequest | GenerationFailed | ValidationError "field list"
  | VersionError | TypeError

definition findById :: "db \<Rightarrow> oid \<Rightarrow> tale option" where
  "findById s i = tales s i"

text \<open>
  \<^verbatim>\<open>doc.save()\<close> of a document whose array path changed, with nothing written since
  it was read: the stored document becomes the in-memory one and the version key grows.
\<close>

definition save :: "db \<Rightarrow> oid \<Rightarrow> tale \<Rightarrow> db" where
  "save s i t = s\<lparr>tales := (tales s)(i \<mapsto> t), versions := (versions s)(i := Suc (versions s i))\<rparr>"

section \<open>Array primitives\<close>

text \<open>\<^verbatim>\<open>Array.prototype.indexOf\<close>: the first index holding the value, or -1.\<close>

fun indexOf :: "'a list \<Rightarrow> 'a \<Rightarrow> int" where
  "indexOf [] x = - 1"
| "indexOf (y # ys) x =
     (if y = x then 0
      else (let r = indexOf ys x in if r = - 1 then - 1 else r + 1))"

text \<open>
  \<^verbatim>\<open>Array.prototype.splice(start, deleteCount)\<close> with no inserted items: a negative start
  counts from the end, and both bounds are clamped to the array.
\<close>

definition splice :: "'a list \<Rightarrow> int \<Rightarrow> nat \<Rightarrow> 'a list" where
  "splice xs start deleteCount =
     (let n = int (length xs);
          k = nat (if start < 0 then max 0 (n + start) else min start n)
      in take k xs @ drop (k + deleteCount) xs)"

definition includes_arr :: "'a list \<Rightarrow> 'a \<Rightarrow> bool" where
  "includes_arr xs x = (indexOf xs x \<noteq> - 1)"

section \<open>Like toggling and like status\<close>

text \<open>
  \<^verbatim>\<open>likeTale\<close> (POST /:id/like, behind \<^verbatim>\<open>protect\<close>, so the requester is always an
  authenticated user). The result is the new collection and either the error or the
  pair \<^verbatim>\<open>(liked, likes)\<close> of the 200 answer.
\<close>

definition likeTale :: "db \<Rightarrow> oid \<Rightarrow> oid \<Rightarrow> db \<times> (error + bool \<times> number)" where
  "likeTale s i userId =
     (case findById s i of
        None \<Rightarrow> (s, Inl NotFound)
      | Some t \<Rightarrow>
          if \<not> isPublic t then (s, Inl Forbidden)
          else
            (let userIndex = indexOf (likedBy t) userId in
             if userIndex = - 1 then
               (let t' = t\<lparr>likes := addNumber (likes t) 1, likedBy := likedBy t @ [userId]\<rparr>
                in (save s i t', Inr (True, likes t')))
             else
               (let t' = t\<lparr>likes := mathMax (Finite 0) (addNumber (likes t) (- 1)),
                           likedBy := splice (likedBy t) userIndex 1\<rparr>
                in (save s i t', Inr (False, likes t')))))"

text \<open>\<^verbatim>\<open>checkLikeStatus\<close> (GET /:id/like, behind \<^verbatim>\<open>protect\<close>).\<close>

definition checkLikeStatus :: "db \<Rightarrow> oid \<Rightarrow> oid \<Rightarrow> error + bool" where
  "checkLikeStatus s i userId =
     (case findById s i of
        None \<Rightarrow> Inl NotFound
      | Some t \<Rightarrow> Inr (includes_arr (likedBy t) userId))"

section \<open>Reading one tale\<close>

text \<open>
  \<^verbatim>\<open>populate('author', 'name')\<close>: the author reference becomes the user document of
  that id, its id and name, or \<^verbatim>\<open>null\<close> when no user has that id.
\<close>

definition populateAuthor :: "db \<Rightarrow> tale \<Rightarrow> (oid \<times> jsstring) option" where
  "populateAuthor s t =
     (case users s (author t) of None \<Rightarrow> None | Some name \<Rightarrow> Some (author t, name))"


section \<open>Schema validation\<close>

text \<open>
  White space as \<^verbatim>\<open>String.prototype.trim\<close> and the regular expression class
  \<^verbatim>\<open>\s\<close> see it: the WhiteSpace and LineTerminator code points of ECMAScript.
\<close>

definition isLineTerminator :: "code_unit \<Rightarrow> bool" where
  "isLineTerminator c = (c \<in> set [0x0A, 0x0D, 0x2028, 0x2029])"

definition isWhiteSpace :: "code_unit \<Rightarrow> bool" where
  "isWhiteSpace c =
     (c \<in> set [0x09, 0x0A, 0x0B, 0x0C, 0x0D, 0x20, 0xA0, 0x1680, 0x2028, 0x2029,
               0x202F, 0x205F, 0x3000, 0xFEFF]
      \<or> (0x2000 \<le> c \<and> c \<le> 0x200A))"

definition trim :: "jsstring \<Rightarrow> jsstring" where
  "trim s = rev (dropWhile isWhiteSpace (rev (dropWhile isWhiteSpace s)))"

definition ageRanges :: "jsstring list" where
  "ageRanges = map js [''2-4'', ''5-7'', ''8-10'', ''11-13'']"

definition topics :: "jsstring list" where
  "topics = map js [''adventure'', ''fantasy'', ''animals'', ''friendship'', ''nature'',
                    ''space'', ''science'', ''history'', ''sports'']"

text \<open>
  A path of a request body is absent (\<open>None\<close>) or carries a value of the path's type.
  The validators of a path, run on the cast value (\<^verbatim>\<open>trim: true\<close> is a setter of
  \<^verbatim>\<open>title\<close> and \<^verbatim>\<open>content\<close>): \<^verbatim>\<open>required\<close> wants a non-empty string.
\<close>

definition checkRequired :: "jsstring option \<Rightarrow> bool" where
  "checkRequired v = (case v of None \<Rightarrow> False | Some x \<Rightarrow> x \<noteq> [])"

definition titleValid :: "jsstring option \<Rightarrow> bool" where
  "titleValid v = (checkRequired v \<and> (case v of None \<Rightarrow> True | Some x \<Rightarrow> length x \<le> 100))"

definition contentValid :: "jsstring option \<Rightarrow> bool" where
  "contentValid v = checkRequired v"

definition ageRangeValid :: "jsstring option \<Rightarrow> bool" where
  "ageRangeValid v = (checkRequired v \<and> (case v of None \<Rightarrow> True | Some x \<Rightarrow> x \<in> set ageRanges))"

definition topicValid :: "jsstring option \<Rightarrow> bool" where
  "topicValid v = (checkRequired v \<and> (case v of None \<Rightarrow> True | Some x \<Rightarrow> x \<in> set topics))"

definition failing :: "bool \<Rightarrow> field \<Rightarrow> field list" where
  "failing ok f = (if ok then [] else [f])"

section \<open>Creating, updating and deleting\<close>

record createBody =
  b_title :: "jsstring option"
  b_content :: "jsstring option"
  b_ageRange :: "jsstring option"
  b_topic :: "jsstring option"
  b_isPublic :: "bool option"

text \<open>
  \<^verbatim>\<open>createTale\<close> (POST /, behind \<^verbatim>\<open>protect\<close>): only the five destructured paths of the
  body reach \<^verbatim>\<open>Tale.create\<close>, the author is the authenticated user, and \<^verbatim>\<open>likes\<close>
  and \<^verbatim>\<open>likedBy\<close> take the schema defaults. The 201 answer carries the new document.
\<close>

definition createTale :: "db \<Rightarrow> oid \<Rightarrow> createBody \<Rightarrow> db \<times> (error + oid \<times> tale)" where
  "createTale s user b =
     (let title' = map_option trim (b_title b);
          content' = map_option trim (b_content b);
          errs = failing (titleValid title') Title @ failing (contentValid content') Content
               @ failing (ageRangeValid (b_ageRange b)) AgeRange
               @ failing (topicValid (b_topic b)) Topic
      in if errs \<noteq> [] then (s, Inl (ValidationError errs))
         else
           (let t = \<lparr>title = the title', content = the content',
                     ageRange = the (b_ageRange b), topic = the (b_topic b),
                     author = user,
                     isPublic = (case b_isPublic b of None \<Rightarrow> False | Some p \<Rightarrow> p),
                     likes = Finite 0, likedBy = []\<rparr>;
                i = nextId s
            in (s\<lparr>tales := (tales s)(i \<mapsto> t), nextId := Suc i, versions := (versions s)(i := 0)\<rparr>,
                Inr (i, t))))"

text \<open>
  The body of a PATCH is handed to \<^verbatim>\<open>findByIdAndUpdate\<close> as it arrives: every path of
  the schema may be named in it, each with a value of its type. (A count set to
  \<^verbatim>\<open>null\<close> has the arithmetic of 0 in the like toggle and is not told apart from it.)
\<close>

record patch =
  p_title :: "jsstring option"
  p_content :: "jsstring option"
  p_ageRange :: "jsstring option"
  p_topic :: "jsstring option"
  p_author :: "oid option"
  p_isPublic :: "bool option"
  p_likes :: "number option"
  p_likedBy :: "oid list option"

text \<open>\<^verbatim>\<open>runValidators: true\<close>: the validators of the paths the update names.\<close>

definition patchErrors :: "patch \<Rightarrow> field list" where
  "patchErrors p =
     (case p_title p of None \<Rightarrow> [] | Some v \<Rightarrow> failing (titleValid (Some (trim v))) Title)
   @ (case p_content p of None \<Rightarrow> [] | Some v \<Rightarrow> failing (contentValid (Some (trim v))) Content)
   @ (case p_ageRange p of None \<Rightarrow> [] | Some v \<Rightarrow> failing (ageRangeValid (Some v)) AgeRange)
   @ (case p_topic p of None \<Rightarrow> [] | Some v \<Rightarrow> failing (topicValid (Some v)) Topic)"

definition applyPatch :: "tale \<Rightarrow> patch \<Rightarrow> tale" where
  "applyPatch t p =
     \<lparr>title = (case p_title p of None \<Rightarrow> title t | Some v \<Rightarrow> trim v),
      content = (case p_content p of None \<Rightarrow> content t | Some v \<Rightarrow> trim v),
      ageRange = (case p_ageRange p of None \<Rightarrow> ageRange t | Some v \<Rightarrow> v),
      topic = (case p_topic p of None \<Rightarrow> topic t | Some v \<Rightarrow> v),
      author = (case p_author p of None \<Rightarrow> author t | Some v \<Rightarrow> v),
      isPublic = (case p_isPublic p of None \<Rightarrow> isPublic t | Some v \<Rightarrow> v),
      likes = (case p_likes p of None \<Rightarrow> likes t | Some v \<Rightarrow> v),
      likedBy = (case p_likedBy p of None \<Rightarrow> likedBy t | Some v \<Rightarrow> v)\<rparr>"

text \<open>\<^verbatim>\<open>Tale.findByIdAndUpdate(id, body, {new: true, runValidators: true})\<close>.\<close>

definition findByIdAndUpdate :: "db \<Rightarrow> oid \<Rightarrow> patch \<Rightarrow> db \<times> (error + tale option)" where
  "findByIdAndUpdate s i p =
     (let errs = patchErrors p in
      if errs \<noteq> [] then (s, Inl (ValidationError errs))
      else (case findById s i of
              None \<Rightarrow> (s, Inr None)
            | Some t \<Rightarrow>
                (let t' = applyPatch t p
                 in (s\<lparr>tales := (tales s)(i \<mapsto> t')\<rparr>, Inr (Some t')))))"

text \<open>\<^verbatim>\<open>updateTale\<close> (PATCH /:id, behind \<^verbatim>\<open>protect\<close>).\<close>

definition updateTale :: "db \<Rightarrow> oid \<Rightarrow> oid \<Rightarrow> patch \<Rightarrow> db \<times> (error + tale option)" where
  "updateTale s i user p =
     (case findById s i of
        None \<Rightarrow> (s, Inl NotFound)
      | Some t \<Rightarrow>
          if author t \<noteq> user then (s, Inl Forbidden)
          else findByIdAndUpdate s i p)"

text \<open>\<^verbatim>\<open>deleteTale\<close> (DELETE /:id, behind \<^verbatim>\<open>protect\<close>).\<close>

definition deleteTale :: "db \<Rightarrow> oid \<Rightarrow> oid \<Rightarrow> db \<times> (error + unit)" where
  "deleteTale s i user =
     (case findById s i of
        None \<Rightarrow> (s, Inl NotFound)
      | Some t \<Rightarrow>
          if author t \<noteq> user then (s, Inl Forbidden)
          else (s\<lparr>tales := (tales s)(i := None)\<rparr>, Inr ()))"

section \<open>Generating a tale\<close>

record generateBody =
  g_ageRange :: "jsstring option"
  g_topic :: "jsstring option"
  g_mainCharacter :: "jsstring option"
  g_setting :: "jsstring option"
  g_additionalDetails :: "jsstring option"

text \<open>Truthiness of a body path that is absent or a string: the empty string is falsy.\<close>

definition truthy :: "jsstring option \<Rightarrow> bool" where
  "truthy v = (case v of None \<Rightarrow> False | Some x \<Rightarrow> x \<noteq> [])"

definition interpolate :: "jsstring option \<Rightarrow> jsstring" where
  "interpolate v = (case v of None \<Rightarrow> js ''undefined'' | Some x \<Rightarrow> x)"

definition buildPrompt :: "generateBody \<Rightarrow> jsstring" where
  "buildPrompt b =
     js ''Create a children's story for ages '' @ interpolate (g_ageRange b)
       @ js '' about '' @ interpolate (g_topic b) @ js ''.''
     @ (if truthy (g_mainCharacter b)
        then js '' The main character should be named '' @ interpolate (g_mainCharacter b) @ js ''.''
        else [])
     @ (if truthy (g_setting b)
        then js '' The story should be set in '' @ interpolate (g_setting b) @ js ''.''
        else [])
     @ (if truthy (g_additionalDetails b)
        then js '' Additional details: '' @ interpolate (g_additionalDetails b)
        else [])
     @ js '' The story should be appropriate for the age range, engaging, and educational if possible. Include a creative title at the beginning. Format the story with clear paragraphs.''"

text \<open>
  The external generator: what the \<open>k\<close>-th request made of it answers to a prompt, a
  text or a failure (a rejected call, or an answer without a text block, both of which
  end in the \<^verbatim>\<open>catch\<close>).
\<close>

datatype outcome = Failed | Text jsstring

type_synonym generator = "nat \<Rightarrow> jsstring \<Rightarrow> outcome"

text \<open>
  \<^verbatim>\<open>(.*?)(?:\n|$)\<close> at the current position, without flags: the lazy dot takes no line
  terminator, \<^verbatim>\<open>$\<close> holds at the end of the input only. The result is the capture and
  the text matched.
\<close>

fun lazyLine :: "jsstring \<Rightarrow> (jsstring \<times> jsstring) option" where
  "lazyLine [] = Some ([], [])"
| "lazyLine (c # cs) =
     (if c = 0x0A then Some ([], [c])
      else if isLineTerminator c then None
      else (case lazyLine cs of None \<Rightarrow> None | Some (g, m) \<Rightarrow> Some (c # g, c # m)))"

text \<open>
  \<^verbatim>\<open>\s*(.*?)(?:\n|$)\<close>: the greedy star takes one more white-space unit first and
  falls back to taking none when the rest of the pattern then fails.
\<close>

fun spacesThenLine :: "jsstring \<Rightarrow> (jsstring \<times> jsstring) option" where
  "spacesThenLine [] = lazyLine []"
| "spacesThenLine (c # cs) =
     (if isWhiteSpace c
      then (case spacesThenLine cs of
              Some (g, m) \<Rightarrow> Some (g, c # m)
            | None \<Rightarrow> lazyLine (c # cs))
      else lazyLine (c # cs))"

text \<open>\<^verbatim>\<open>/^#\s*(.*?)(?:\n|$)/\<close> and \<^verbatim>\<open>/^(.*?)(?:\n|$)/\<close>: capture 1 and the whole match.\<close>

definition matchHeading :: "jsstring \<Rightarrow> (jsstring \<times> jsstring) option" where
  "matchHeading s =
     (case s of
        [] \<Rightarrow> None
      | c # cs \<Rightarrow>
          if c = 0x23
          then (case spacesThenLine cs of None \<Rightarrow> None | Some (g, m) \<Rightarrow> Some (g, c # m))
          else None)"

definition matchLine :: "jsstring \<Rightarrow> (jsstring \<times> jsstring) option" where
  "matchLine s = lazyLine s"

definition titleMatch :: "jsstring \<Rightarrow> (jsstring \<times> jsstring) option" where
  "titleMatch s = (case matchHeading s of Some r \<Rightarrow> Some r | None \<Rightarrow> matchLine s)"

text \<open>\<^verbatim>\<open>String.prototype.replace\<close> with a string pattern: the first occurrence only.\<close>

fun replaceFirst :: "'a list \<Rightarrow> 'a list \<Rightarrow> 'a list \<Rightarrow> 'a list" where
  "replaceFirst [] pat rep = (if pat = [] then rep else [])"
| "replaceFirst (c # cs) pat rep =
     (if take (length pat) (c # cs) = pat then rep @ drop (length pat) (c # cs)
      else c # replaceFirst cs pat rep)"

text \<open>The title and the content extracted from the generated text.\<close>

definition extractTale :: "jsstring \<Rightarrow> jsstring \<times> jsstring" where
  "extractTale generatedContent =
     (case titleMatch generatedContent of
        None \<Rightarrow> (js ''Untitled Tale'', generatedContent)
      | Some (g, m) \<Rightarrow> (trim g, trim (replaceFirst generatedContent m [])))"

record preview =
  pv_title :: jsstring
  pv_content :: jsstring
  pv_ageRange :: jsstring
  pv_topic :: jsstring

text \<open>
  \<^verbatim>\<open>generateTale\<close> (POST /generate, behind \<^verbatim>\<open>protect\<close>). The number of requests made of
  the generator so far is threaded through, so that every call is counted.
\<close>

definition generateTale :: "generator \<Rightarrow> nat \<Rightarrow> generateBody \<Rightarrow> nat \<times> (error + preview)" where
  "generateTale api calls b =
     (if \<not> truthy (g_ageRange b) \<or> \<not> truthy (g_topic b) then (calls, Inl BadRequest)
      else
        (case api calls (buildPrompt b) of
           Failed \<Rightarrow> (Suc calls, Inl GenerationFailed)
         | Text generatedContent \<Rightarrow>
             (let (title', content') = extractTale generatedContent
              in (Suc calls,
                  Inr \<lparr>pv_title = title', pv_content = content',
                       pv_ageRange = interpolate (g_ageRange b),
                       pv_topic = interpolate (g_topic b)\<rparr>))))"

text \<open>
  The parse as the specification words it: the title is the first line without a leading
  heading marker (the run of \<^verbatim>\<open>#\<close> a markdown heading starts with), the body is what
  follows the first line, both without surrounding white space.
\<close>

definition firstLine :: "jsstring \<Rightarrow> jsstring" where
  "firstLine s = takeWhile (\<lambda>c. c \<noteq> 0x0A) s"

definition afterFirstLine :: "jsstring \<Rightarrow> jsstring" where
  "afterFirstLine s = drop 1 (dropWhile (\<lambda>c. c \<noteq> 0x0A) s)"

definition stripHeadingMarker :: "jsstring \<Rightarrow> jsstring" where
  "stripHeadingMarker l = dropWhile (\<lambda>c. c = 0x23) l"

definition spec_extractTale :: "jsstring \<Rightarrow> jsstring \<times> jsstring" where
  "spec_extractTale s = (trim (stripHeadingMarker (firstLine s)), trim (afterFirstLine s))"

text \<open>
  The first line holds no line terminator of its own (carriage return, line separator,
  paragraph separator), and a leading heading marker is a single \<^verbatim>\<open>#\<close>, followed on
  its line by something other than white space unless nothing but white space follows
  it at all.
\<close>

definition plainFirstLine :: "jsstring \<Rightarrow> bool" where
  "plainFirstLine s = list_all (\<lambda>c. \<not> isLineTerminator c) (firstLine s)"

definition startsWithMarker :: "jsstring \<Rightarrow> bool" where
  "startsWithMarker s = (case s of [] \<Rightarrow> False | c # cs \<Rightarrow> c = 0x23)"

definition headingFilled :: "jsstring \<Rightarrow> bool" where
  "headingFilled s =
     (if startsWithMarker s
      then \<not> startsWithMarker (tl s)
           \<and> (list_ex (\<lambda>c. \<not> isWhiteSpace c) (firstLine (tl s)) \<or> list_all isWhiteSpace (tl s))
      else True)"

text \<open>A generator that answers with lines ending in carriage return and line feed.\<close>

definition crlfText :: jsstring where
  "crlfText = js ''The Fox'' @ [0x0D, 0x0A] @ js ''Once upon a time.''"

definition crlfApi :: generator where
  "crlfApi k prompt = Text crlfText"

definition markdownText :: jsstring where
  "markdownText = js ''# The Fox'' @ [0x0A, 0x0A] @ js ''Once upon a time.'' @ [0x0A]"

definition markdownApi :: generator where
  "markdownApi k prompt = Text markdownText"

definition failingApi :: generator where
  "failingApi k prompt = (if k = 0 then Failed else Text markdownText)"

definition foxRequest :: generateBody where
  "foxRequest = \<lparr>g_ageRange = Some (js ''5-7''), g_topic = Some (js ''animals''),
                 g_mainCharacter = None, g_setting = None, g_additionalDetails = None\<rparr>"

section \<open>The like toggle between its two awaits\<close>

text \<open>
  A request handler runs alone between two \<^verbatim>\<open>await\<close>s. \<^verbatim>\<open>likeTale\<close> awaits twice:
  \<^verbatim>\<open>findById\<close>, which hands it a copy of the document, and \<^verbatim>\<open>save\<close>, which sends the
  paths changed on that copy: \<^verbatim>\<open>likes\<close> as the value computed from the copy, a pushed
  id as a push onto the stored array, a spliced array as a whole, the latter only when
  the version key is still the one read. Other requests may run between the two.
\<close>

definition likeTale_read :: "db \<Rightarrow> oid \<Rightarrow> (tale \<times> nat) option" where
  "likeTale_read s i = (case findById s i of None \<Rightarrow> None | Some t \<Rightarrow> Some (t, versions s i))"

definition likeTale_save ::
  "db \<Rightarrow> oid \<Rightarrow> oid \<Rightarrow> (tale \<times> nat) option \<Rightarrow> db \<times> (error + bool \<times> number)" where
  "likeTale_save s i userId snapshot =
     (case snapshot of
        None \<Rightarrow> (s, Inl NotFound)
      | Some (t, v) \<Rightarrow>
          if \<not> isPublic t then (s, Inl Forbidden)
          else
            (let userIndex = indexOf (likedBy t) userId in
             if userIndex = - 1 then
               (let n = addNumber (likes t) 1 in
                case findById s i of
                  None \<Rightarrow> (s, Inl VersionError)
                | Some cur \<Rightarrow>
                    (save s i (cur\<lparr>likes := n, likedBy := likedBy cur @ [userId]\<rparr>),
                     Inr (True, n)))
             else
               (let n = mathMax (Finite 0) (addNumber (likes t) (- 1));
                    arr = splice (likedBy t) userIndex 1 in
                case findById s i of
                  None \<Rightarrow> (s, Inl VersionError)
                | Some cur \<Rightarrow>
                    if versions s i \<noteq> v then (s, Inl VersionError)
                    else (save s i (cur\<lparr>likes := n, likedBy := arr\<rparr>), Inr (False, n)))))"

text \<open>
  Users 2 and 3 both like tale 0 of the collection \<open>s\<close>, and both handlers have read the
  tale before either saves.
\<close>

definition raced :: "db \<Rightarrow> db" where
  "raced s =
     fst (likeTale_save (fst (likeTale_save s 0 2 (likeTale_read s 0))) 0 3 (likeTale_read s 0))"

section \<open>Answers to forwarded errors\<close>

text \<open>
  Modelled from the spec: the error-handling middleware that answers what a controller
  hands to \<^verbatim>\<open>next(error)\<close> is not among the sources. Section 7 of the specification
  gives the status of each kind of error; the statuses of \<open>NotFound\<close>, \<open>Forbidden\<close>,
  \<open>BadRequest\<close> and \<open>GenerationFailed\<close> are the ones the controllers send themselves, and
  an error the taxonomy does not name is unhandled.
\<close>

fun errorStatus :: "error \<Rightarrow> nat" where
  "errorStatus NotFound = 404"
| "errorStatus Forbidden = 403"
| "errorStatus BadRequest = 400"
| "errorStatus GenerationFailed = 500"
| "errorStatus (ValidationError fs) = 400"
| "errorStatus VersionError = 500"
| "errorStatus TypeError = 500"

section \<open>A small collection to run the operations on\<close>

definition fox :: tale where
  "fox = \<lparr>title = js ''The Fox'', content = js ''Once upon a time.'', ageRange = js ''5-7'',
          topic = js ''animals'', author = 1, isPublic = True, likes = Finite 1,
          likedBy = [2]\<rparr>"

definition diary :: tale where
  "diary = \<lparr>title = js ''My Diary'', content = js ''Dear diary,'', ageRange = js ''8-10'',
            topic = js ''friendship'', author = 1, isPublic = False, likes = Finite 0,
            likedBy = []\<rparr>"

definition people :: "oid \<Rightarrow> jsstring option" where
  "people = [1 \<mapsto> js ''Ada'', 2 \<mapsto> js ''Ben'', 3 \<mapsto> js ''Cy'']"

definition shelf :: db where
  "shelf = \<lparr>tales = [10 \<mapsto> fox, 11 \<mapsto> diary], nextId = 12, versions = (\<lambda>i. 0),
            users = people\<rparr>"

definition emptyDb :: db where
  "emptyDb = \<lparr>tales = Map.empty, nextId = 0, versions = (\<lambda>i. 0), users = people\<rparr>"

definition noPatch :: patch where
  "noPatch = \<lparr>p_title = None, p_content = None, p_ageRange = None, p_topic = None,
              p_author = None, p_isPublic = None, p_likes = None, p_likedBy = None\<rparr>"

definition storyBody :: createBody where
  "storyBody = \<lparr>b_title = Some (js ''  The Owl ''), b_content = Some (js ''An owl sat.''),
                b_ageRange = Some (js ''2-4''), b_topic = Some (js ''nature''),
                b_isPublic = Some True\<rparr>"

definition owl :: tale where
  "owl = \<lparr>title = js ''The Owl'', content = js ''An owl sat.'', ageRange = js ''2-4'',
          topic = js ''nature'', author = 1, isPublic = True, likes = Finite 0, likedBy = []\<rparr>"

text \<open>User 1 creates a public tale in an empty collection; it gets the id 0.\<close>

definition created :: db where
  "created = fst (createTale emptyDb 1 storyBody)"

text \<open>Then the author sends a PATCH that names \<^verbatim>\<open>likes\<close>, \<^verbatim>\<open>likedBy\<close> or \<^verbatim>\<open>author\<close>.\<close>

definition inflated :: db where
  "inflated = fst (updateTale created 0 1 (noPatch\<lparr>p_likes := Some (Finite 5)\<rparr>))"

definition brimful :: db where
  "brimful =
     fst (updateTale created 0 1 (noPatch\<lparr>p_likes := Some (Finite 9007199254740992)\<rparr>))"

definition doubled :: db where
  "doubled =
     fst (updateTale created 0 1
            (noPatch\<lparr>p_likes := Some (Finite 3), p_likedBy := Some [2, 3, 2]\<rparr>))"


definition seeded :: db where
  "seeded = fst (updateTale created 0 1 (noPatch\<lparr>p_likedBy := Some [2]\<rparr>))"

definition handedOver :: db where
  "handedOver = fst (updateTale created 0 1 (noPatch\<lparr>p_author := Some 2\<rparr>))"

text \<open>Or user 2 toggles the like of the tale twice in a row.\<close>

definition toggledTwice :: "db \<Rightarrow> db" where
  "toggledTwice s = fst (likeTale (fst (likeTale s 0 2)) 0 2)"

section \<open>The like count and the likers\<close>

text \<open>The count is the number of likers, and nobody is listed twice.\<close>

definition consistent :: "tale \<Rightarrow> bool" where
  "consistent t =
     (likes t = Finite (of_int (int (length (likedBy t)))) \<and> distinct (likedBy t))"

section \<open>Facts about the array primitives\<close>

lemma indexOf_ge: "- 1 \<le> indexOf xs x"
  by (induction xs) (auto simp: Let_def)

lemma indexOf_absent: "indexOf xs x = - 1 \<longleftrightarrow> x \<notin> set xs"
proof (induction xs)
  case Nil
  show ?case by simp
next
  case (Cons y ys)
  have "- 1 \<le> indexOf ys x" by (rule indexOf_ge)
  with Cons show ?case by (auto simp: Let_def)
qed

lemma includes_arr_iff: "includes_arr xs x \<longleftrightarrow> x \<in> set xs"
  by (simp add: includes_arr_def indexOf_absent)

lemma splice_indexOf: "x \<in> set xs \<Longrightarrow> splice xs (indexOf xs x) 1 = remove1 x xs"
proof (induction xs)
  case Nil
  then show ?case by simp
next
  case (Cons y ys)
  show ?case
  proof (cases "y = x")
    case True
    then show ?thesis by (simp add: splice_def)
  next
    case False
    with Cons.prems have mem: "x \<in> set ys" by simp
    then have ne: "indexOf ys x \<noteq> - 1" by (simp add: indexOf_absent)
    with indexOf_ge [of ys x] have nonneg: "0 \<le> indexOf ys x" by linarith
    have ih: "splice ys (indexOf ys x) 1 = remove1 x ys" using Cons.IH mem by simp
    have k: "nat (min (indexOf ys x + 1) (1 + int (length ys)))
             = Suc (nat (min (indexOf ys x) (int (length ys))))"
      using nonneg by (simp add: min_def nat_add_distrib)
    have "splice (y # ys) (indexOf ys x + 1) 1 = y # splice ys (indexOf ys x) 1"
      using nonneg k by (simp add: splice_def Let_def)
    with False ne ih show ?thesis by (simp add: Let_def)
  qed
qed

section \<open>Facts about numbers\<close>

lemma ilog2_bounds:
  assumes "0 < x"
  shows "2 powi (ilog2 x) \<le> x \<and> x < 2 powi (ilog2 x + 1)"
proof -
  obtain p q where pq: "quotient_of x = (p, q)" by (cases "quotient_of x")
  then have q: "0 < q" and x: "x = of_int p / of_int q"
    by (simp_all add: quotient_of_denom_pos quotient_of_div)
  from assms x q have p: "0 < p" by (simp add: zero_less_divide_iff)
  let ?bp = "bitlen p" and ?bq = "bitlen q"
  from bitlen_bounds [OF p] have p1: "2 ^ nat (?bp - 1) \<le> p" and p2: "p < 2 ^ nat ?bp" by simp_all
  from bitlen_bounds [OF q] have q1: "2 ^ nat (?bq - 1) \<le> q" and q2: "q < 2 ^ nat ?bq" by simp_all
  from p have bp: "1 \<le> ?bp" by (simp add: bitlen_alt_def)
  from q have bq: "1 \<le> ?bq" by (simp add: bitlen_alt_def)
  have P1: "(2::rat) powi (?bp - 1) \<le> of_int p"
  proof -
    have "(2::rat) powi (?bp - 1) = 2 ^ nat (?bp - 1)" using bp by (simp add: power_int_def)
    also have "\<dots> = of_int (2 ^ nat (?bp - 1))" by simp
    also have "\<dots> \<le> of_int p" using p1 by (simp only: of_int_le_iff)
    finally show ?thesis .
  qed
  have P2: "of_int p < (2::rat) powi ?bp"
  proof -
    have "of_int p < (of_int (2 ^ nat ?bp) :: rat)" using p2 by (simp only: of_int_less_iff)
    also have "\<dots> = 2 powi ?bp" using bp by (simp add: power_int_def)
    finally show ?thesis .
  qed
  have Q1: "(2::rat) powi (?bq - 1) \<le> of_int q"
  proof -
    have "(2::rat) powi (?bq - 1) = 2 ^ nat (?bq - 1)" using bq by (simp add: power_int_def)
    also have "\<dots> = of_int (2 ^ nat (?bq - 1))" by simp
    also have "\<dots> \<le> of_int q" using q1 by (simp only: of_int_le_iff)
    finally show ?thesis .
  qed
  have Q2: "of_int q < (2::rat) powi ?bq"
  proof -
    have "of_int q < (of_int (2 ^ nat ?bq) :: rat)" using q2 by (simp only: of_int_less_iff)
    also have "\<dots> = 2 powi ?bq" using bq by (simp add: power_int_def)
    finally show ?thesis .
  qed
  have qpos: "(0::rat) < of_int q" using q by simp
  have ppos: "(0::rat) < of_int p" using p by simp
  let ?d = "?bp - ?bq"
  have lo: "(2::rat) powi (?d - 1) \<le> x"
  proof -
    have "?d - 1 = (?bp - 1) - ?bq" by simp
    then have "(2::rat) powi (?d - 1) = 2 powi ((?bp - 1) - ?bq)" by (simp only:)
    also have "\<dots> = 2 powi (?bp - 1) / 2 powi ?bq"
      by (rule power_int_diff) simp
    also have "\<dots> \<le> of_int p / 2 powi ?bq"
      using P1 by (simp add: divide_right_mono)
    also have "\<dots> \<le> of_int p / of_int q"
      using Q2 qpos ppos by (simp add: frac_le)
    finally show ?thesis using x by simp
  qed
  have hi: "x < (2::rat) powi (?d + 1)"
  proof -
    have "x = of_int p / of_int q" by (rule x)
    also have "\<dots> < 2 powi ?bp / of_int q"
      using P2 qpos by (simp add: divide_strict_right_mono)
    also have "\<dots> \<le> 2 powi ?bp / 2 powi (?bq - 1)"
      using Q1 by (simp add: frac_le)
    also have "\<dots> = 2 powi (?bp - (?bq - 1))"
      by (rule power_int_diff [symmetric]) simp
    also have "?bp - (?bq - 1) = ?d + 1" by simp
    finally show ?thesis .
  qed
  show ?thesis
  proof (cases "2 powi ?d \<le> x")
    case True
    with pq have "ilog2 x = ?d" by (simp add: ilog2_def)
    with True hi show ?thesis by simp
  next
    case False
    with pq have "ilog2 x = ?d - 1" by (simp add: ilog2_def)
    with False lo show ?thesis by simp
  qed
qed


lemma roundHalfEven_int: "roundHalfEven (of_int z) = z"
  by (simp add: roundHalfEven_def)

lemma toDouble_int_small:
  assumes "m \<noteq> 0" and "\<bar>m\<bar> < 2 ^ 53"
  shows "toDouble (of_int m) = Finite (of_int m)"
proof -
  let ?x = "of_int m :: rat"
  let ?e = "ilog2 \<bar>?x\<bar>"
  from assms(1) have apos: "0 < \<bar>?x\<bar>" by simp
  from assms(1) have "1 \<le> \<bar>m\<bar>" by simp
  then have "(of_int 1 :: rat) \<le> of_int \<bar>m\<bar>" by (simp only: of_int_le_iff)
  then have a1: "1 \<le> \<bar>?x\<bar>" by simp
  from assms(2) have "(of_int \<bar>m\<bar> :: rat) < of_int (2 ^ 53)" by (simp only: of_int_less_iff)
  then have a53: "\<bar>?x\<bar> < 2 ^ 53" by simp
  from ilog2_bounds [OF apos] have lo: "2 powi ?e \<le> \<bar>?x\<bar>" and hi: "\<bar>?x\<bar> < 2 powi (?e + 1)"
    by simp_all
  have e0: "0 \<le> ?e"
  proof (rule ccontr)
    assume "\<not> 0 \<le> ?e"
    then have "?e + 1 \<le> 0" by simp
    then have "(2::rat) powi (?e + 1) \<le> 2 powi 0" by (rule power_int_increasing) simp
    with hi a1 show False by simp
  qed
  have e52: "?e \<le> 52"
  proof (rule ccontr)
    assume "\<not> ?e \<le> 52"
    then have "53 \<le> ?e" by simp
    then have "(2::rat) powi 53 \<le> 2 powi ?e" by (rule power_int_increasing) simp
    with lo a53 show False by simp
  qed
  define c where "c = nat (52 - ?e)"
  from e52 have ec: "?e - 52 = - int c" by (simp add: c_def)
  have u: "(2::rat) powi (?e - 52) = inverse (2 ^ c)"
    by (simp only: ec power_int_minus power_int_of_nat)
  have q: "?x / inverse (2 ^ c) = of_int (m * 2 ^ c)" by (simp add: divide_inverse)
  have r: "roundHalfEven (?x / inverse (2 ^ c)) = m * 2 ^ c"
    by (simp only: q roundHalfEven_int)
  have y: "of_int (m * 2 ^ c) * inverse (2 ^ c) = ?x" by simp
  have big: "\<not> (2::rat) ^ 1024 \<le> \<bar>?x\<bar>"
  proof -
    have "(2::rat) ^ 53 \<le> 2 ^ 1024" by (rule power_increasing) simp_all
    with a53 show ?thesis by linarith
  qed
  from e0 have mx: "max ?e (- 1022) = ?e" by simp
  from assms(1) have nz: "?x \<noteq> 0" by simp
  show ?thesis
    unfolding toDouble_def Let_def mx u r y using nz big by simp
qed

lemma toDouble_int:
  assumes "\<bar>m\<bar> \<le> 2 ^ 53"
  shows "toDouble (of_int m) = Finite (of_int m)"
proof -
  have top: "toDouble (of_int (2 ^ 53)) = Finite (of_int (2 ^ 53))" by code_simp
  have bot: "toDouble (of_int (- (2 ^ 53))) = Finite (of_int (- (2 ^ 53)))" by code_simp
  consider "m = 0" | "m = 2 ^ 53" | "m = - (2 ^ 53)" | "m \<noteq> 0" "\<bar>m\<bar> < 2 ^ 53"
    using assms by linarith
  then show ?thesis
  proof cases
    case 1
    then show ?thesis by (simp add: toDouble_def)
  next
    case 2
    with top show ?thesis by simp
  next
    case 3
    with bot show ?thesis by simp
  next
    case 4
    then show ?thesis by (rule toDouble_int_small)
  qed
qed

lemma toDouble_past_53: "toDouble 9007199254740993 = Finite 9007199254740992"
  by code_simp

lemma addNumber_up:
  assumes "- (2 ^ 53) \<le> n" and "n < 2 ^ 53"
  shows "addNumber (Finite (of_int n)) 1 = Finite (of_int (n + 1))"
proof -
  from assms have "\<bar>n + 1\<bar> \<le> 2 ^ 53" by simp
  then have "toDouble (of_int (n + 1)) = Finite (of_int (n + 1))" by (rule toDouble_int)
  then show ?thesis by simp
qed

lemma addNumber_down:
  assumes "- (2 ^ 53) < n" and "n \<le> 2 ^ 53"
  shows "addNumber (Finite (of_int n)) (- 1) = Finite (of_int (n - 1))"
proof -
  from assms have "\<bar>n - 1\<bar> \<le> 2 ^ 53" by simp
  then have "toDouble (of_int (n - 1)) = Finite (of_int (n - 1))" by (rule toDouble_int)
  then show ?thesis by simp
qed

lemma mathMax_zero: "mathMax (Finite 0) (Finite (of_int n)) = Finite (of_int (max 0 n))"
  by (simp add: max_def)

section \<open>Creation\<close>

lemmas run_simps = createTale_def updateTale_def findByIdAndUpdate_def patchErrors_def
  applyPatch_def failing_def titleValid_def contentValid_def ageRangeValid_def topicValid_def
  checkRequired_def ageRanges_def topics_def js_def trim_def isWhiteSpace_def findById_def
  emptyDb_def storyBody_def owl_def noPatch_def created_def Let_def

lemma topic_invalid: "v \<notin> Some ` set topics \<Longrightarrow> \<not> topicValid v"
  by (cases v) (auto simp: topicValid_def checkRequired_def)

lemma ageRange_invalid: "v \<notin> Some ` set ageRanges \<Longrightarrow> \<not> ageRangeValid v"
  by (cases v) (auto simp: ageRangeValid_def checkRequired_def)

lemma createTale_created:
  assumes "createTale s u b = (s', Inr (i, t))"
  shows "likes t = Finite 0 \<and> likedBy t = [] \<and> author t = u
         \<and> isPublic t = (b_isPublic b = Some True)
         \<and> i = nextId s \<and> tales s' = (tales s)(i \<mapsto> t)"
  using assms by (auto simp: createTale_def Let_def split: if_splits option.splits)

lemma created_owl: "findById created 0 = Some owl"
  by (simp add: run_simps)

text \<open>
  C7. A body whose topic is not one of the 9 categories of the schema, whose age range is
  not one of its 4 bands, or that lacks the title or the content (a missing topic or age
  range is not in the enumeration either) makes \<^verbatim>\<open>Tale.create\<close> throw a validation
  error, which the controller forwards and the error middleware answers with 400; the
  collection is left as it was.
\<close>

theorem createTale_rejects:
  assumes "b_topic b \<notin> Some ` set topics \<or> b_ageRange b \<notin> Some ` set ageRanges
           \<or> b_title b = None \<or> b_content b = None"
  shows "length topics = 9 \<and> length ageRanges = 4
         \<and> (\<exists>errs. errs \<noteq> [] \<and> createTale s u b = (s, Inl (ValidationError errs))
                    \<and> errorStatus (ValidationError errs) = 400)"
proof -
  let ?errs = "failing (titleValid (map_option trim (b_title b))) Title
               @ failing (contentValid (map_option trim (b_content b))) Content
               @ failing (ageRangeValid (b_ageRange b)) AgeRange
               @ failing (topicValid (b_topic b)) Topic"
  from assms have ne: "?errs \<noteq> []"
    by (auto simp: failing_def topic_invalid ageRange_invalid titleValid_def contentValid_def
        checkRequired_def)
  then have "createTale s u b = (s, Inl (ValidationError ?errs))"
    by (simp add: createTale_def Let_def)
  with ne have "\<exists>errs. errs \<noteq> [] \<and> createTale s u b = (s, Inl (ValidationError errs))
                    \<and> errorStatus (ValidationError errs) = 400"
    by auto
  moreover have "length topics = 9 \<and> length ageRanges = 4"
    by (simp add: topics_def ageRanges_def)
  ultimately show ?thesis by simp
qed

theorem createTale_rejects_witness:
  "b_topic (storyBody\<lparr>b_topic := Some (js ''dragons'')\<rparr>) \<notin> Some ` set topics
   \<and> (\<exists>errs. errs \<noteq> []
          \<and> createTale shelf 1 (storyBody\<lparr>b_topic := Some (js ''dragons'')\<rparr>)
              = (shelf, Inl (ValidationError errs)))
   \<and> b_title (storyBody\<lparr>b_title := None\<rparr>) = None
   \<and> (\<exists>errs. errs \<noteq> []
          \<and> createTale shelf 1 (storyBody\<lparr>b_title := None\<rparr>)
              = (shelf, Inl (ValidationError errs)))"
proof -
  have a: "b_topic (storyBody\<lparr>b_topic := Some (js ''dragons'')\<rparr>) \<notin> Some ` set topics"
    by (simp add: topics_def js_def image_iff)
  have b: "b_title (storyBody\<lparr>b_title := None\<rparr>) = None" by simp
  from createTale_rejects [of "storyBody\<lparr>b_topic := Some (js ''dragons'')\<rparr>" shelf 1] a
  have c: "\<exists>errs. errs \<noteq> []
          \<and> createTale shelf 1 (storyBody\<lparr>b_topic := Some (js ''dragons'')\<rparr>)
              = (shelf, Inl (ValidationError errs))"
    by blast
  from createTale_rejects [of "storyBody\<lparr>b_title := None\<rparr>" shelf 1] b
  have d: "\<exists>errs. errs \<noteq> []
          \<and> createTale shelf 1 (storyBody\<lparr>b_title := None\<rparr>)
              = (shelf, Inl (ValidationError errs))"
    by blast
  from a b c d show ?thesis by (simp only: simp_thms)
qed

lemma createTale_rejects_paths:
  "createTale shelf 1 (storyBody\<lparr>b_topic := Some (js ''dragons'')\<rparr>)
     = (shelf, Inl (ValidationError [Topic]))
   \<and> createTale shelf 1 (storyBody\<lparr>b_title := None\<rparr>) = (shelf, Inl (ValidationError [Title]))
   \<and> createTale shelf 1 (storyBody\<lparr>b_ageRange := Some (js ''14-16''), b_content := None\<rparr>)
     = (shelf, Inl (ValidationError [Content, AgeRange]))"
  by (simp add: run_simps)

section \<open>Updates\<close>

lemma updateTale_applied:
  assumes "updateTale s i u p = (s', Inr r)"
  shows "\<exists>t. findById s i = Some t \<and> author t = u \<and> patchErrors p = []
             \<and> r = Some (applyPatch t p) \<and> s' = s\<lparr>tales := (tales s)(i \<mapsto> applyPatch t p)\<rparr>"
  using assms
  by (auto simp: updateTale_def findByIdAndUpdate_def Let_def split: option.splits if_splits)

lemma updateTale_frame:
  assumes "updateTale s i u p = (s', Inr (Some t'))" and "findById s i = Some t"
  shows "(p_author p = None \<longrightarrow> author t' = author t)
         \<and> (p_likes p = None \<longrightarrow> likes t' = likes t)
         \<and> (p_likedBy p = None \<longrightarrow> likedBy t' = likedBy t)"
proof -
  from updateTale_applied [OF assms(1)] assms(2) have "t' = applyPatch t p" by auto
  then show ?thesis by (simp add: applyPatch_def)
qed

text \<open>
  C4. The author of tale 0 is user 1. The PATCH of user 1 whose body names
  \<^verbatim>\<open>author\<close> is accepted, and the stored author is then user 2.
\<close>

theorem updateTale_replaces_author:
  "map_option author (findById created 0) = Some 1
   \<and> snd (updateTale created 0 1 (noPatch\<lparr>p_author := Some 2\<rparr>)) = Inr (Some (owl\<lparr>author := 2\<rparr>))
   \<and> map_option author (findById handedOver 0) = Some 2"
  by (simp add: handedOver_def run_simps)

text \<open>
  C1. Tale 0 is created with no likes and no likers. The PATCH of its author whose body
  names \<^verbatim>\<open>likes\<close> is accepted, and the stored count is then 5 with no liker.
\<close>

theorem updateTale_sets_likes:
  "map_option likes (findById created 0) = Some (Finite 0)
   \<and> map_option likedBy (findById created 0) = Some []
   \<and> map_option likes (findById inflated 0) = Some (Finite 5)
   \<and> map_option likedBy (findById inflated 0) = Some []"
  by (simp add: inflated_def run_simps)

section \<open>The like toggle\<close>

lemma likeTale_present:
  assumes "findById s i = Some t" and "isPublic t" and "u \<in> set (likedBy t)"
  shows "likeTale s i u =
           (save s i (t\<lparr>likes := mathMax (Finite 0) (addNumber (likes t) (- 1)),
                        likedBy := remove1 u (likedBy t)\<rparr>),
            Inr (False, mathMax (Finite 0) (addNumber (likes t) (- 1))))"
proof -
  from assms(3) have ix: "indexOf (likedBy t) u \<noteq> - 1" by (simp add: indexOf_absent)
  from assms(3) have "splice (likedBy t) (indexOf (likedBy t) u) 1 = remove1 u (likedBy t)"
    by (rule splice_indexOf)
  then have sp: "splice (likedBy t) (indexOf (likedBy t) u) (Suc 0) = remove1 u (likedBy t)"
    by simp
  from assms ix show ?thesis by (simp add: likeTale_def Let_def sp)
qed

lemma likeTale_absent:
  assumes "findById s i = Some t" and "isPublic t" and "u \<notin> set (likedBy t)"
  shows "likeTale s i u =
           (save s i (t\<lparr>likes := addNumber (likes t) 1, likedBy := likedBy t @ [u]\<rparr>),
            Inr (True, addNumber (likes t) 1))"
proof -
  from assms(3) have "indexOf (likedBy t) u = - 1" by (simp add: indexOf_absent)
  with assms show ?thesis by (simp add: likeTale_def Let_def)
qed

lemma findById_save: "findById (save s i t) j = (if j = i then Some t else findById s j)"
  by (simp add: findById_def save_def)

lemma likeTale_others:
  "j \<noteq> i \<Longrightarrow> findById (fst (likeTale s i u)) j = findById s j"
  by (simp add: likeTale_def Let_def findById_save split: option.splits)

lemma likeTale_missing:
  "findById s i = None \<Longrightarrow> fst (likeTale s i u) = s"
  by (simp add: likeTale_def)

lemma remove1_once:
  "count_list xs u \<le> 1 \<Longrightarrow> u \<notin> set (remove1 u xs)"
proof (induction xs)
  case Nil
  show ?case by simp
next
  case (Cons y ys)
  show ?case
  proof (cases "y = u")
    case True
    with Cons.prems have "count_list ys u = 0" by simp
    with True show ?thesis by (simp add: count_list_0_iff)
  next
    case False
    with Cons show ?thesis by simp
  qed
qed

lemma set_remove1_back: "u \<in> set xs \<Longrightarrow> insert u (set (remove1 u xs)) = set xs"
  by (induction xs) auto

text \<open>
  C2, as the code has it. On an existing public tale that lists the requester at most
  once and whose count is a whole number of magnitude below \<open>2 ^ 53\<close>: a listed requester
  is taken off the list and the count is lowered by one, not below 0, with the answer
  \<^verbatim>\<open>liked: false\<close>; an unlisted one is appended and the count grows by one, with the
  answer \<^verbatim>\<open>liked: true\<close>. The answer carries the count that is stored, a later
  \<^verbatim>\<open>checkLikeStatus\<close> tells the same liked-state, and no other tale changes.
\<close>

theorem likeTale_toggles:
  assumes "findById s i = Some t" and "isPublic t"
    and "count_list (likedBy t) u \<le> 1"
    and "likes t = Finite (of_int n)" and "\<bar>n\<bar> < 2 ^ 53"
  shows "findById (fst (likeTale s i u)) i =
           Some (if u \<in> set (likedBy t)
                 then t\<lparr>likes := Finite (of_int (max 0 (n - 1))),
                        likedBy := remove1 u (likedBy t)\<rparr>
                 else t\<lparr>likes := Finite (of_int (n + 1)), likedBy := likedBy t @ [u]\<rparr>)
         \<and> snd (likeTale s i u) =
             Inr (u \<notin> set (likedBy t),
                  Finite (of_int (if u \<in> set (likedBy t) then max 0 (n - 1) else n + 1)))
         \<and> checkLikeStatus (fst (likeTale s i u)) i u = Inr (u \<notin> set (likedBy t))
         \<and> (\<forall>j. j \<noteq> i \<longrightarrow> findById (fst (likeTale s i u)) j = findById s j)"
proof -
  from assms(5) have lo: "- (2 ^ 53) \<le> n" "- (2 ^ 53) < n" and hi: "n < 2 ^ 53" "n \<le> 2 ^ 53"
    by simp_all
  have up: "addNumber (likes t) 1 = Finite (of_int (n + 1))"
    unfolding assms(4) by (rule addNumber_up [OF lo(1) hi(1)])
  have down: "mathMax (Finite 0) (addNumber (likes t) (- 1)) = Finite (of_int (max 0 (n - 1)))"
    unfolding assms(4) addNumber_down [OF lo(2) hi(2)] by (rule mathMax_zero)
  have others: "\<forall>j. j \<noteq> i \<longrightarrow> findById (fst (likeTale s i u)) j = findById s j"
    by (simp add: likeTale_others)
  show ?thesis
  proof (cases "u \<in> set (likedBy t)")
    case True
    from assms(3) have gone: "u \<notin> set (remove1 u (likedBy t))" by (rule remove1_once)
    from likeTale_present [OF assms(1,2) True] True gone others show ?thesis
      by (simp add: down findById_save checkLikeStatus_def includes_arr_iff)
  next
    case False
    from likeTale_absent [OF assms(1,2) False] False others show ?thesis
      by (simp add: up findById_save checkLikeStatus_def includes_arr_iff)
  qed
qed

theorem likeTale_toggles_witness:
  "findById shelf 10 = Some fox \<and> isPublic fox \<and> count_list (likedBy fox) 2 \<le> 1
   \<and> count_list (likedBy fox) 3 \<le> 1 \<and> likes fox = Finite (of_int 1) \<and> \<bar>1 :: int\<bar> < 2 ^ 53
   \<and> findById (fst (likeTale shelf 10 2)) 10 = Some (fox\<lparr>likes := Finite 0, likedBy := []\<rparr>)
   \<and> snd (likeTale shelf 10 2) = Inr (False, Finite 0)
   \<and> checkLikeStatus (fst (likeTale shelf 10 2)) 10 2 = Inr False
   \<and> findById (fst (likeTale shelf 10 3)) 10 = Some (fox\<lparr>likes := Finite 2, likedBy := [2, 3]\<rparr>)
   \<and> snd (likeTale shelf 10 3) = Inr (True, Finite 2)
   \<and> checkLikeStatus (fst (likeTale shelf 10 3)) 10 3 = Inr True
   \<and> findById (fst (likeTale shelf 10 3)) 11 = findById shelf 11"
proof -
  have f: "findById shelf 10 = Some fox" by (simp add: findById_def shelf_def)
  have p: "isPublic fox" by (simp add: fox_def)
  have l: "likedBy fox = [2]" by (simp add: fox_def)
  have c: "count_list (likedBy fox) 2 \<le> 1" "count_list (likedBy fox) 3 \<le> 1" by (simp_all add: l)
  have n: "likes fox = Finite (of_int 1)" by (simp add: fox_def)
  have b: "\<bar>1 :: int\<bar> < 2 ^ 53" by simp
  from likeTale_toggles [OF f p c(1) n b] likeTale_toggles [OF f p c(2) n b] f p c n b l
  show ?thesis by simp
qed

text \<open>
  The claim as it is worded fails on two public tales that a PATCH of the author
  produces. With the likers 2, 3, 2, the toggle of user 2 answers \<^verbatim>\<open>liked: false\<close> and
  user 2 is still listed. With the count \<open>2 ^ 53\<close>, the like of user 2 leaves the count
  as it was.
\<close>

theorem likeTale_toggles_counterexample:
  "map_option isPublic (findById doubled 0) = Some True
   \<and> map_option likedBy (findById doubled 0) = Some [2, 3, 2]
   \<and> snd (likeTale doubled 0 2) = Inr (False, Finite 2)
   \<and> map_option likedBy (findById (fst (likeTale doubled 0 2)) 0) = Some [3, 2]
   \<and> checkLikeStatus (fst (likeTale doubled 0 2)) 0 2 = Inr True
   \<and> map_option isPublic (findById brimful 0) = Some True
   \<and> map_option likes (findById brimful 0) = Some (Finite 9007199254740992)
   \<and> map_option likedBy (findById brimful 0) = Some []
   \<and> snd (likeTale brimful 0 2) = Inr (True, Finite 9007199254740992)
   \<and> map_option likes (findById (fst (likeTale brimful 0 2)) 0)
       = Some (Finite 9007199254740992)"
proof -
  have d: "findById doubled 0 = Some (owl\<lparr>likes := Finite 3, likedBy := [2, 3, 2]\<rparr>)"
    by (simp add: doubled_def run_simps)
  have dp: "isPublic (owl\<lparr>likes := Finite 3, likedBy := [2, 3, 2]\<rparr>)" by (simp add: owl_def)
  have dm: "2 \<in> set (likedBy (owl\<lparr>likes := Finite 3, likedBy := [2, 3, 2]\<rparr>))" by simp
  have "toDouble (of_int 2) = Finite (of_int 2)" by (rule toDouble_int) simp
  then have three: "toDouble 2 = Finite 2" by simp
  have one: "likeTale doubled 0 2
               = (save doubled 0 (owl\<lparr>likes := Finite 2, likedBy := [3, 2]\<rparr>), Inr (False, Finite 2))"
    using likeTale_present [OF d dp dm] by (simp add: three)
  have b: "findById brimful 0 = Some (owl\<lparr>likes := Finite 9007199254740992\<rparr>)"
    by (simp add: brimful_def run_simps)
  have bp: "isPublic (owl\<lparr>likes := Finite 9007199254740992\<rparr>)"
    and bl: "likedBy (owl\<lparr>likes := Finite 9007199254740992\<rparr>) = []"
    by (simp_all add: owl_def)
  from bl have bm: "2 \<notin> set (likedBy (owl\<lparr>likes := Finite 9007199254740992\<rparr>))" by simp
  have two: "likeTale brimful 0 2
               = (save brimful 0 (owl\<lparr>likes := Finite 9007199254740992, likedBy := [2]\<rparr>),
                  Inr (True, Finite 9007199254740992))"
    using likeTale_absent [OF b bp bm] by (simp add: toDouble_past_53 owl_def)
  from d b one two show ?thesis
    by (simp add: findById_save checkLikeStatus_def includes_arr_iff owl_def)
qed

text \<open>
  C5. Liking an id that matches no tale is answered \<open>NotFound\<close>; liking a private tale is
  answered \<open>Forbidden\<close>, whoever asks, its author included; the collection is left as it
  was in both cases.
\<close>

theorem likeTale_refusals:
  "(findById s i = None \<longrightarrow> likeTale s i u = (s, Inl NotFound))
   \<and> (findById s i = Some t \<and> \<not> isPublic t \<longrightarrow> likeTale s i u = (s, Inl Forbidden))"
  by (simp add: likeTale_def)

theorem likeTale_refusals_witness:
  "findById shelf 12 = None \<and> likeTale shelf 12 2 = (shelf, Inl NotFound)
   \<and> findById shelf 11 = Some diary \<and> \<not> isPublic diary
   \<and> likeTale shelf 11 (author diary) = (shelf, Inl Forbidden)"
proof -
  have n: "findById shelf 12 = None" by (simp add: findById_def shelf_def)
  have f: "findById shelf 11 = Some diary" by (simp add: findById_def shelf_def)
  have p: "\<not> isPublic diary" by (simp add: diary_def)
  show ?thesis
    using likeTale_refusals [of shelf 12 2 diary]
      likeTale_refusals [of shelf 11 "author diary" diary] n f p
    by simp
qed

section \<open>Like status and reading\<close>



lemma populateAuthor_known:
  "users s (author t) = Some name \<Longrightarrow> populateAuthor s t = Some (author t, name)"
  by (simp add: populateAuthor_def)




section \<open>The count of likes follows the likers\<close>

lemma createTale_consistent:
  "createTale s u b = (s', Inr (i, t)) \<Longrightarrow> consistent t"
  using createTale_created [of s u b s' i t] by (simp add: consistent_def)

lemma consistent_like:
  assumes "consistent t" and "u \<notin> set (likedBy t)" and "int (length (likedBy t)) < 2 ^ 53"
  shows "consistent (t\<lparr>likes := addNumber (likes t) 1, likedBy := likedBy t @ [u]\<rparr>)"
proof -
  from assms(1) have l: "likes t = Finite (of_int (int (length (likedBy t))))"
    and d: "distinct (likedBy t)"
    by (simp_all add: consistent_def)
  have "addNumber (likes t) 1 = Finite (of_int (int (length (likedBy t)) + 1))"
    unfolding l by (rule addNumber_up) (use assms(3) in simp_all)
  with d assms(2) show ?thesis by (simp add: consistent_def)
qed

lemma consistent_unlike:
  assumes "consistent t" and "u \<in> set (likedBy t)" and "int (length (likedBy t)) \<le> 2 ^ 53"
  shows "consistent (t\<lparr>likes := mathMax (Finite 0) (addNumber (likes t) (- 1)),
                        likedBy := remove1 u (likedBy t)\<rparr>)"
proof -
  from assms(1) have l: "likes t = Finite (of_int (int (length (likedBy t))))"
    and d: "distinct (likedBy t)"
    by (simp_all add: consistent_def)
  from assms(2) have pos: "0 < length (likedBy t)" by (cases "likedBy t") auto
  have "addNumber (likes t) (- 1) = Finite (of_int (int (length (likedBy t)) - 1))"
    unfolding l by (rule addNumber_down) (use assms(3) in simp_all)
  then have "mathMax (Finite 0) (addNumber (likes t) (- 1))
               = Finite (of_int (max 0 (int (length (likedBy t)) - 1)))"
    by (simp only: mathMax_zero)
  moreover from pos have "max 0 (int (length (likedBy t)) - 1) = int (length (likedBy t) - 1)"
    by linarith
  ultimately show ?thesis using d assms(2) by (simp add: consistent_def length_remove1)
qed

lemma likeTale_consistent:
  assumes "findById s i = Some t" and "consistent t"
    and "int (length (likedBy t)) < 2 ^ 53"
    and "findById (fst (likeTale s i u)) i = Some t'"
  shows "consistent t'"
proof (cases "isPublic t")
  case False
  with assms show ?thesis by (simp add: likeTale_def)
next
  case True
  show ?thesis
  proof (cases "u \<in> set (likedBy t)")
    case True
    from assms(3) have "int (length (likedBy t)) \<le> 2 ^ 53" by simp
    from consistent_unlike [OF assms(2) True this] assms(1,4) \<open>isPublic t\<close> True show ?thesis
      by (simp add: likeTale_present findById_save)
  next
    case False
    from consistent_like [OF assms(2) False assms(3)] assms(1,4) \<open>isPublic t\<close> False show ?thesis
      by (simp add: likeTale_absent findById_save)
  qed
qed

lemma updateTale_consistent:
  assumes "updateTale s i u p = (s', Inr (Some t'))" and "findById s i = Some t"
    and "p_likes p = None" and "p_likedBy p = None"
  shows "consistent t' = consistent t"
  using updateTale_frame [OF assms(1,2)] assms(3,4) by (simp add: consistent_def)

lemma consistent_card: "consistent t \<Longrightarrow> likes t = Finite (of_int (int (card (set (likedBy t)))))"
  by (simp add: consistent_def distinct_card)

section \<open>Toggling twice\<close>

text \<open>
  C3, as the code has it. On an existing public tale that lists the requester at most
  once and whose count is a whole number below \<open>2 ^ 53\<close>, at least 1 when the requester
  is listed and at least 0 when not, two toggles in a row by the requester bring back
  the count and the set of likers, so also the requester's liked-state, and the second
  answer carries both.
\<close>

theorem likeTale_twice:
  assumes "findById s i = Some t" and "isPublic t"
    and "count_list (likedBy t) u \<le> 1"
    and "likes t = Finite (of_int n)"
    and "(if u \<in> set (likedBy t) then 1 else 0) \<le> n" and "n < 2 ^ 53"
  shows "\<exists>t2. findById (fst (likeTale (fst (likeTale s i u)) i u)) i = Some t2
              \<and> likes t2 = likes t
              \<and> set (likedBy t2) = set (likedBy t)
              \<and> snd (likeTale (fst (likeTale s i u)) i u) = Inr (u \<in> set (likedBy t), likes t)"
proof (cases "u \<in> set (likedBy t)")
  case True
  let ?t1 = "t\<lparr>likes := mathMax (Finite 0) (addNumber (likes t) (- 1)),
                likedBy := remove1 u (likedBy t)\<rparr>"
  from True assms(5) have pos: "1 \<le> n" by simp
  have "addNumber (Finite (of_int n)) (- 1) = Finite (of_int (n - 1))"
    by (rule addNumber_down) (use pos assms(6) in simp_all)
  then have "mathMax (Finite 0) (addNumber (likes t) (- 1)) = Finite (of_int (max 0 (n - 1)))"
    by (simp only: assms(4) mathMax_zero)
  with pos have l1: "likes ?t1 = Finite (of_int (n - 1))" by simp
  have "addNumber (Finite (of_int (n - 1))) 1 = Finite (of_int (n - 1 + 1))"
    by (rule addNumber_up) (use pos assms(6) in simp_all)
  with l1 have again: "addNumber (likes ?t1) 1 = likes t" by (simp add: assms(4))
  have s1: "fst (likeTale s i u) = save s i ?t1"
    using assms(1,2) True by (simp add: likeTale_present)
  have f1: "findById (save s i ?t1) i = Some ?t1" by (simp add: findById_save)
  have p1: "isPublic ?t1" using assms(2) by simp
  have out: "u \<notin> set (likedBy ?t1)" using assms(3) by (simp add: remove1_once)
  have "likeTale (save s i ?t1) i u =
          (save (save s i ?t1) i (?t1\<lparr>likes := addNumber (likes ?t1) 1,
                                      likedBy := likedBy ?t1 @ [u]\<rparr>),
           Inr (True, addNumber (likes ?t1) 1))"
    by (rule likeTale_absent [OF f1 p1 out])
  with s1 True again show ?thesis
    by (simp add: findById_save set_remove1_back)
next
  case False
  let ?t1 = "t\<lparr>likes := addNumber (likes t) 1, likedBy := likedBy t @ [u]\<rparr>"
  from False assms(5) have nonneg: "0 \<le> n" by simp
  have "addNumber (Finite (of_int n)) 1 = Finite (of_int (n + 1))"
    by (rule addNumber_up) (use nonneg assms(6) in simp_all)
  then have l1: "likes ?t1 = Finite (of_int (n + 1))" by (simp add: assms(4))
  have "addNumber (Finite (of_int (n + 1))) (- 1) = Finite (of_int (n + 1 - 1))"
    by (rule addNumber_down) (use nonneg assms(6) in simp_all)
  then have "mathMax (Finite 0) (addNumber (likes ?t1) (- 1)) = Finite (of_int (max 0 n))"
    by (simp only: l1 mathMax_zero) simp
  with nonneg have again: "mathMax (Finite 0) (addNumber (likes ?t1) (- 1)) = likes t"
    by (simp add: assms(4))
  have s1: "fst (likeTale s i u) = save s i ?t1"
    using assms(1,2) False by (simp add: likeTale_absent)
  have f1: "findById (save s i ?t1) i = Some ?t1" by (simp add: findById_save)
  have p1: "isPublic ?t1" using assms(2) by simp
  have inn: "u \<in> set (likedBy ?t1)" by simp
  have "likeTale (save s i ?t1) i u =
          (save (save s i ?t1) i
             (?t1\<lparr>likes := mathMax (Finite 0) (addNumber (likes ?t1) (- 1)),
                   likedBy := remove1 u (likedBy ?t1)\<rparr>),
           Inr (False, mathMax (Finite 0) (addNumber (likes ?t1) (- 1))))"
    by (rule likeTale_present [OF f1 p1 inn])
  with s1 False again show ?thesis
    by (simp add: findById_save remove1_append)
qed

theorem likeTale_twice_witness:
  "findById shelf 10 = Some fox \<and> isPublic fox \<and> count_list (likedBy fox) 2 \<le> 1
   \<and> likes fox = Finite (of_int 1)
   \<and> (if 2 \<in> set (likedBy fox) then 1 else 0) \<le> (1 :: int) \<and> (1 :: int) < 2 ^ 53
   \<and> (\<exists>t2. findById (fst (likeTale (fst (likeTale shelf 10 2)) 10 2)) 10 = Some t2
           \<and> likes t2 = Finite 1 \<and> set (likedBy t2) = {2})
   \<and> snd (likeTale (fst (likeTale shelf 10 2)) 10 2) = Inr (True, Finite 1)"
proof -
  have f: "findById shelf 10 = Some fox" by (simp add: findById_def shelf_def)
  have p: "isPublic fox" by (simp add: fox_def)
  have l: "likedBy fox = [2]" by (simp add: fox_def)
  have k: "likes fox = Finite (of_int 1)" by (simp add: fox_def)
  have c: "count_list (likedBy fox) 2 \<le> 1" by (simp add: l)
  have n: "(if 2 \<in> set (likedBy fox) then 1 else 0) \<le> (1 :: int)" by (simp add: l)
  have b: "(1 :: int) < 2 ^ 53" by simp
  from likeTale_twice [OF f p c k n b] f p c k n b l show ?thesis by auto
qed

lemma distinct_count_once: "distinct xs \<Longrightarrow> count_list xs u \<le> 1"
  by (induction xs) (auto simp: count_list_0_iff)

lemma consistent_twice:
  assumes "consistent t" and "int (length (likedBy t)) < 2 ^ 53"
  shows "count_list (likedBy t) u \<le> 1
         \<and> likes t = Finite (of_int (int (length (likedBy t))))
         \<and> (if u \<in> set (likedBy t) then 1 else 0) \<le> int (length (likedBy t))"
proof -
  from assms have d: "distinct (likedBy t)"
    and l: "likes t = Finite (of_int (int (length (likedBy t))))"
    by (simp_all add: consistent_def)
  from d have "count_list (likedBy t) u \<le> 1" by (rule distinct_count_once)
  moreover have "u \<in> set (likedBy t) \<Longrightarrow> 1 \<le> int (length (likedBy t))"
    by (cases "likedBy t") auto
  ultimately show ?thesis using l by simp
qed

text \<open>
  The claim as it is worded fails on two public tales that a PATCH of the author
  produces. On the one that lists user 2 with the count left at 0, two toggles by
  user 2 end with the count 1. On the one with the count \<open>2 ^ 53\<close> and no liker, they end
  with the count \<open>2 ^ 53 - 1\<close>.
\<close>

theorem likeTale_twice_counterexample:
  "map_option isPublic (findById seeded 0) = Some True
   \<and> map_option likes (findById seeded 0) = Some (Finite 0)
   \<and> map_option likedBy (findById seeded 0) = Some [2]
   \<and> map_option likes (findById (toggledTwice seeded) 0) = Some (Finite 1)
   \<and> map_option likedBy (findById (toggledTwice seeded) 0) = Some [2]
   \<and> map_option isPublic (findById brimful 0) = Some True
   \<and> map_option likes (findById brimful 0) = Some (Finite 9007199254740992)
   \<and> map_option likedBy (findById brimful 0) = Some []
   \<and> map_option likes (findById (toggledTwice brimful) 0) = Some (Finite 9007199254740991)
   \<and> map_option likedBy (findById (toggledTwice brimful) 0) = Some []"
proof -
  have z: "toDouble (- 1) = Finite (- 1)" "toDouble 1 = Finite 1"
    using toDouble_int [of "- 1"] toDouble_int [of 1] by simp_all
  have s: "findById seeded 0 = Some (owl\<lparr>likedBy := [2]\<rparr>)"
    by (simp add: seeded_def run_simps)
  have p: "isPublic (owl\<lparr>likedBy := [2]\<rparr>)" by (simp add: owl_def)
  have m: "2 \<in> set (likedBy (owl\<lparr>likedBy := [2]\<rparr>))" by simp
  have one: "fst (likeTale seeded 0 2) = save seeded 0 (owl\<lparr>likes := Finite 0, likedBy := []\<rparr>)"
    using likeTale_present [OF s p m] by (simp add: owl_def z max_def)
  have f1: "findById (save seeded 0 (owl\<lparr>likes := Finite 0, likedBy := []\<rparr>)) 0
              = Some (owl\<lparr>likes := Finite 0, likedBy := []\<rparr>)"
    by (simp add: findById_save)
  have p1: "isPublic (owl\<lparr>likes := Finite 0, likedBy := []\<rparr>)" by (simp add: owl_def)
  have m1: "2 \<notin> set (likedBy (owl\<lparr>likes := Finite 0, likedBy := []\<rparr>))" by simp
  have two: "findById (toggledTwice seeded) 0 = Some (owl\<lparr>likes := Finite 1, likedBy := [2]\<rparr>)"
    using likeTale_absent [OF f1 p1 m1] one by (simp add: toggledTwice_def findById_save z)
  have b: "findById brimful 0 = Some (owl\<lparr>likes := Finite 9007199254740992\<rparr>)"
    by (simp add: brimful_def run_simps)
  have bp: "isPublic (owl\<lparr>likes := Finite 9007199254740992\<rparr>)"
    and bl: "likedBy (owl\<lparr>likes := Finite 9007199254740992\<rparr>) = []"
    by (simp_all add: owl_def)
  from bl have bm: "2 \<notin> set (likedBy (owl\<lparr>likes := Finite 9007199254740992\<rparr>))" by simp
  have three: "fst (likeTale brimful 0 2)
                 = save brimful 0 (owl\<lparr>likes := Finite 9007199254740992, likedBy := [2]\<rparr>)"
    using likeTale_absent [OF b bp bm] by (simp add: toDouble_past_53 owl_def)
  have f3: "findById (save brimful 0 (owl\<lparr>likes := Finite 9007199254740992, likedBy := [2]\<rparr>)) 0
              = Some (owl\<lparr>likes := Finite 9007199254740992, likedBy := [2]\<rparr>)"
    by (simp add: findById_save)
  have p3: "isPublic (owl\<lparr>likes := Finite 9007199254740992, likedBy := [2]\<rparr>)"
    by (simp add: owl_def)
  have m3: "2 \<in> set (likedBy (owl\<lparr>likes := Finite 9007199254740992, likedBy := [2]\<rparr>))" by simp
  have "toDouble (of_int 9007199254740991) = Finite (of_int 9007199254740991)"
    by (rule toDouble_int) simp
  then have y: "toDouble 9007199254740991 = Finite 9007199254740991" by simp
  have four: "findById (toggledTwice brimful) 0
                = Some (owl\<lparr>likes := Finite 9007199254740991, likedBy := []\<rparr>)"
    using likeTale_present [OF f3 p3 m3] three
    by (simp add: toggledTwice_def findById_save y max_def)
  from s two b four show ?thesis by (simp add: owl_def)
qed

section \<open>Parsing the generated text\<close>

lemma lazyLine_plain:
  "plainFirstLine s \<Longrightarrow> lazyLine s = Some (firstLine s, take (Suc (length (firstLine s))) s)"
proof (induction s)
  case Nil
  show ?case by (simp add: firstLine_def)
next
  case (Cons c cs)
  show ?case
  proof (cases "c = 0x0A")
    case True
    then show ?thesis by (simp add: firstLine_def)
  next
    case False
    with Cons.prems have nt: "\<not> isLineTerminator c" and rest: "plainFirstLine cs"
      by (simp_all add: plainFirstLine_def firstLine_def)
    from Cons.IH [OF rest] False nt show ?thesis by (simp add: firstLine_def)
  qed
qed

lemma lazyLine_broken: "\<not> plainFirstLine s \<Longrightarrow> lazyLine s = None"
proof (induction s)
  case Nil
  then show ?case by (simp add: plainFirstLine_def firstLine_def)
next
  case (Cons c cs)
  show ?case
  proof (cases "c = 0x0A")
    case True
    with Cons.prems show ?thesis by (simp add: plainFirstLine_def firstLine_def)
  next
    case False
    show ?thesis
    proof (cases "isLineTerminator c")
      case True
      with False show ?thesis by simp
    next
      case nt: False
      with Cons.prems False have "\<not> plainFirstLine cs"
        by (simp add: plainFirstLine_def firstLine_def)
      from Cons.IH [OF this] False nt show ?thesis by simp
    qed
  qed
qed

lemma replaceFirst_prefix: "replaceFirst s (take n s) [] = drop n s"
proof (cases s)
  case Nil
  then show ?thesis by simp
next
  case (Cons c cs)
  have "take (min (length s) n) s = take n s" by (simp add: min_def)
  moreover have "drop (min (length s) n) s = drop n s" by (simp add: min_def)
  ultimately show ?thesis using Cons by simp
qed

lemma drop_firstLine: "drop (Suc (length (firstLine s))) s = afterFirstLine s"
  by (simp add: firstLine_def afterFirstLine_def dropWhile_eq_drop)

lemma spacesThenLine_greedy:
  "lazyLine (dropWhile isWhiteSpace cs) = Some (g, m)
   \<Longrightarrow> spacesThenLine cs = Some (g, takeWhile isWhiteSpace cs @ m)"
proof (induction cs)
  case Nil
  then show ?case by simp
next
  case (Cons c cs)
  show ?case
  proof (cases "isWhiteSpace c")
    case True
    with Cons.prems have "lazyLine (dropWhile isWhiteSpace cs) = Some (g, m)" by simp
    from Cons.IH [OF this] True show ?thesis by simp
  next
    case False
    with Cons.prems have "lazyLine (c # cs) = Some (g, m)" by simp
    with False show ?thesis by simp
  qed
qed

lemma trim_spaces:
  assumes "list_all isWhiteSpace w"
  shows "trim w = []"
proof -
  from assms have dw: "dropWhile isWhiteSpace w = []" by (simp add: list_all_iff)
  show ?thesis by (simp only: trim_def dw rev.simps dropWhile.simps)
qed

lemma trim_leading:
  assumes "list_all isWhiteSpace w"
  shows "trim (w @ x) = trim x"
proof -
  from assms have dw: "dropWhile isWhiteSpace (w @ x) = dropWhile isWhiteSpace x"
    by (simp add: list_all_iff)
  show ?thesis by (simp only: trim_def dw)
qed

lemma firstLine_after_spaces:
  "list_ex (\<lambda>c. \<not> isWhiteSpace c) (firstLine cs)
   \<Longrightarrow> firstLine cs = takeWhile isWhiteSpace cs @ firstLine (dropWhile isWhiteSpace cs)"
proof (induction cs)
  case Nil
  then show ?case by (simp add: firstLine_def)
next
  case (Cons c cs)
  show ?case
  proof (cases "isWhiteSpace c")
    case False
    then show ?thesis by simp
  next
    case True
    show ?thesis
    proof (cases "c = 0x0A")
      case True
      with Cons.prems show ?thesis by (simp add: firstLine_def)
    next
      case False
      with Cons.prems True have "list_ex (\<lambda>c. \<not> isWhiteSpace c) (firstLine cs)"
        by (simp add: firstLine_def)
      from Cons.IH [OF this] True False show ?thesis by (simp add: firstLine_def)
    qed
  qed
qed

lemma take_past: "take (Suc (length w + n)) (w @ r) = w @ take (Suc n) r"
  by simp

lemma stripHeadingMarker_none:
  "\<not> startsWithMarker s \<Longrightarrow> stripHeadingMarker (firstLine s) = firstLine s"
  by (cases s) (auto simp: stripHeadingMarker_def startsWithMarker_def firstLine_def)

lemma stripHeadingMarker_single:
  "c = 0x23 \<Longrightarrow> \<not> startsWithMarker cs
   \<Longrightarrow> stripHeadingMarker (firstLine (c # cs)) = firstLine cs"
  using stripHeadingMarker_none [of cs]
  by (simp add: stripHeadingMarker_def firstLine_def)

lemma spaces_no_marker: "list_all isWhiteSpace cs \<Longrightarrow> \<not> startsWithMarker cs"
  by (cases cs) (auto simp: startsWithMarker_def isWhiteSpace_def)

lemma extractTale_plain:
  assumes "plainFirstLine s" and "\<not> startsWithMarker s"
  shows "extractTale s = spec_extractTale s"
proof -
  from assms(2) have mh: "matchHeading s = None"
    by (auto simp: matchHeading_def startsWithMarker_def split: list.splits)
  from assms(2) have sm: "stripHeadingMarker (firstLine s) = firstLine s"
    by (rule stripHeadingMarker_none)
  from lazyLine_plain [OF assms(1)] mh
  have "titleMatch s = Some (firstLine s, take (Suc (length (firstLine s))) s)"
    by (simp add: titleMatch_def matchLine_def)
  then show ?thesis
    by (simp add: extractTale_def spec_extractTale_def sm replaceFirst_prefix drop_firstLine)
qed

lemma extractTale_broken:
  assumes "\<not> plainFirstLine s" and "\<not> startsWithMarker s"
  shows "extractTale s = (js ''Untitled Tale'', s)"
proof -
  from assms(2) have mh: "matchHeading s = None"
    by (auto simp: matchHeading_def startsWithMarker_def split: list.splits)
  from lazyLine_broken [OF assms(1)] mh have "titleMatch s = None"
    by (simp add: titleMatch_def matchLine_def)
  then show ?thesis by (simp add: extractTale_def)
qed

lemma extractTale_heading:
  assumes "plainFirstLine (c # cs)" and "c = 0x23"
    and "list_ex (\<lambda>c. \<not> isWhiteSpace c) (firstLine cs)"
    and "\<not> startsWithMarker cs"
  shows "extractTale (c # cs) = spec_extractTale (c # cs)"
proof -
  let ?w = "takeWhile isWhiteSpace cs"
  let ?r = "dropWhile isWhiteSpace cs"
  have fl: "firstLine cs = ?w @ firstLine ?r" by (rule firstLine_after_spaces [OF assms(3)])
  have flc: "firstLine (c # cs) = c # firstLine cs" using assms(2) by (simp add: firstLine_def)
  from assms(1) flc have "list_all (\<lambda>c. \<not> isLineTerminator c) (firstLine cs)"
    by (simp add: plainFirstLine_def)
  with fl have "plainFirstLine ?r" by (simp add: plainFirstLine_def)
  from lazyLine_plain [OF this]
  have "lazyLine ?r = Some (firstLine ?r, take (Suc (length (firstLine ?r))) ?r)" .
  from spacesThenLine_greedy [OF this]
  have st: "spacesThenLine cs = Some (firstLine ?r, ?w @ take (Suc (length (firstLine ?r))) ?r)" .
  have len: "length (firstLine cs) = length ?w + length (firstLine ?r)"
    using fl by (metis length_append)
  have "take (Suc (length (firstLine cs))) cs = ?w @ take (Suc (length (firstLine ?r))) ?r"
  proof -
    have "take (Suc (length ?w + length (firstLine ?r))) (?w @ ?r)
            = ?w @ take (Suc (length (firstLine ?r))) ?r"
      by (rule take_past)
    then show ?thesis by (simp only: len takeWhile_dropWhile_id)
  qed
  with st have st': "spacesThenLine cs = Some (firstLine ?r, take (Suc (length (firstLine cs))) cs)"
    by simp
  have m: "titleMatch (c # cs)
             = Some (firstLine ?r, take (Suc (length (firstLine (c # cs)))) (c # cs))"
    using st' assms(2) flc by (simp add: titleMatch_def matchHeading_def)
  have ws: "list_all isWhiteSpace ?w" by (simp add: list_all_iff) (meson set_takeWhileD)
  have t: "trim (stripHeadingMarker (firstLine (c # cs))) = trim (firstLine ?r)"
    using stripHeadingMarker_single [OF assms(2,4)] fl trim_leading [OF ws, of "firstLine ?r"]
    by simp
  show ?thesis
    unfolding extractTale_def spec_extractTale_def m
    by (simp only: option.case prod.case replaceFirst_prefix drop_firstLine t)
qed

lemma extractTale_blank_heading:
  assumes "c = 0x23" and "list_all isWhiteSpace cs"
  shows "extractTale (c # cs) = spec_extractTale (c # cs)"
proof -
  from assms(2) have dw: "dropWhile isWhiteSpace cs = []" and tw: "takeWhile isWhiteSpace cs = cs"
    by (simp_all add: list_all_iff dropWhile_eq_Nil_conv takeWhile_eq_all_conv)
  have "lazyLine (dropWhile isWhiteSpace cs) = Some ([], [])" by (simp add: dw)
  from spacesThenLine_greedy [OF this] tw have "spacesThenLine cs = Some ([], cs)" by simp
  with assms(1) have m: "titleMatch (c # cs) = Some ([], c # cs)"
    by (simp add: titleMatch_def matchHeading_def)
  have rf: "replaceFirst (c # cs) (c # cs) [] = []" by simp
  have flc: "firstLine (c # cs) = c # firstLine cs" using assms(1) by (simp add: firstLine_def)
  from assms(2) have a1: "list_all isWhiteSpace (firstLine cs)"
    by (simp add: list_all_iff firstLine_def) (meson set_takeWhileD)
  have "afterFirstLine (c # cs) = drop (Suc (length (firstLine cs))) cs"
    using drop_firstLine [of "c # cs"] flc by simp
  with assms(2) have a2: "list_all isWhiteSpace (afterFirstLine (c # cs))"
    by (simp add: list_all_iff) (meson in_set_dropD)
  have e: "trim [] = []" by (simp add: trim_def)
  have sm: "stripHeadingMarker (firstLine (c # cs)) = firstLine cs"
    using assms(1) spaces_no_marker [OF assms(2)] by (rule stripHeadingMarker_single)
  show ?thesis
    unfolding extractTale_def spec_extractTale_def m sm
    using trim_spaces [OF a1] trim_spaces [OF a2] rf e
    by simp
qed

lemma extractTale_spec:
  assumes "plainFirstLine s" and "headingFilled s"
  shows "extractTale s = spec_extractTale s"
proof (cases "startsWithMarker s")
  case False
  with assms(1) show ?thesis by (rule extractTale_plain)
next
  case True
  then obtain c cs where s: "s = c # cs" and c: "c = 0x23"
    by (auto simp: startsWithMarker_def split: list.splits)
  from assms(2) True s have single: "\<not> startsWithMarker cs"
    by (simp add: headingFilled_def)
  from assms(2) True s
  consider "list_ex (\<lambda>c. \<not> isWhiteSpace c) (firstLine cs)" | "list_all isWhiteSpace cs"
    by (auto simp: headingFilled_def)
  then show ?thesis
  proof cases
    case 1
    from extractTale_heading [OF _ c 1 single] assms(1) s show ?thesis by simp
  next
    case 2
    from extractTale_blank_heading [OF c 2] s show ?thesis by simp
  qed
qed

lemma extractTale_marker_alone:
  "extractTale (js ''#'' @ [0x0A] @ js ''A fox ran.'' @ [0x0A] @ js ''The end.'')
     = (js ''A fox ran.'', js ''The end.'')
   \<and> spec_extractTale (js ''#'' @ [0x0A] @ js ''A fox ran.'' @ [0x0A] @ js ''The end.'')
     = ([], js ''A fox ran.'' @ [0x0A] @ js ''The end.'')"
  by (simp add: extractTale_def spec_extractTale_def titleMatch_def matchHeading_def js_def
      trim_def isWhiteSpace_def isLineTerminator_def firstLine_def afterFirstLine_def
      stripHeadingMarker_def)

lemma extractTale_double_marker:
  "extractTale (js ''## The Fox'' @ [0x0A] @ js ''Once.'') = (js ''# The Fox'', js ''Once.'')
   \<and> spec_extractTale (js ''## The Fox'' @ [0x0A] @ js ''Once.'') = (js ''The Fox'', js ''Once.'')"
  by (simp add: extractTale_def spec_extractTale_def titleMatch_def matchHeading_def js_def
      trim_def isWhiteSpace_def isLineTerminator_def firstLine_def afterFirstLine_def
      stripHeadingMarker_def)

text \<open>
  C8, as the code has it. With an age range and a topic in the body, the generator is
  asked once. When it fails, the answer is \<open>GenerationFailed\<close> (500), whatever a later
  request would have been answered. When it returns a text whose first line is plain and
  whose heading marker, if any, is a single \<^verbatim>\<open>#\<close> and filled, the title is the first
  line without the marker and the content is what follows the first line, both trimmed.
  When the first
  line of a text without marker holds a carriage return or a line or paragraph
  separator, the title is \<^verbatim>\<open>Untitled Tale\<close> and the content is the text as returned.
\<close>

theorem generateTale_parses:
  assumes "truthy (g_ageRange b)" and "truthy (g_topic b)"
  shows "(api calls (buildPrompt b) = Failed
            \<longrightarrow> generateTale api calls b = (Suc calls, Inl GenerationFailed))
         \<and> errorStatus GenerationFailed = 500
         \<and> (api calls (buildPrompt b) = Text text \<and> plainFirstLine text \<and> headingFilled text
              \<longrightarrow> generateTale api calls b =
                    (Suc calls,
                     Inr \<lparr>pv_title = trim (stripHeadingMarker (firstLine text)),
                          pv_content = trim (afterFirstLine text),
                          pv_ageRange = interpolate (g_ageRange b),
                          pv_topic = interpolate (g_topic b)\<rparr>))
         \<and> (api calls (buildPrompt b) = Text text \<and> \<not> plainFirstLine text
              \<and> \<not> startsWithMarker text
              \<longrightarrow> generateTale api calls b =
                    (Suc calls,
                     Inr \<lparr>pv_title = js ''Untitled Tale'', pv_content = text,
                          pv_ageRange = interpolate (g_ageRange b),
                          pv_topic = interpolate (g_topic b)\<rparr>))"
proof -
  have a: "api calls (buildPrompt b) = Failed
            \<longrightarrow> generateTale api calls b = (Suc calls, Inl GenerationFailed)"
    using assms by (simp add: generateTale_def)
  have b: "api calls (buildPrompt b) = Text text \<and> plainFirstLine text \<and> headingFilled text
              \<longrightarrow> generateTale api calls b =
                    (Suc calls,
                     Inr \<lparr>pv_title = trim (stripHeadingMarker (firstLine text)),
                          pv_content = trim (afterFirstLine text),
                          pv_ageRange = interpolate (g_ageRange b),
                          pv_topic = interpolate (g_topic b)\<rparr>)"
  proof
    assume h: "api calls (buildPrompt b) = Text text \<and> plainFirstLine text \<and> headingFilled text"
    then have "extractTale text = spec_extractTale text" by (simp add: extractTale_spec)
    with h assms show "generateTale api calls b =
                    (Suc calls,
                     Inr \<lparr>pv_title = trim (stripHeadingMarker (firstLine text)),
                          pv_content = trim (afterFirstLine text),
                          pv_ageRange = interpolate (g_ageRange b),
                          pv_topic = interpolate (g_topic b)\<rparr>)"
      by (simp add: generateTale_def spec_extractTale_def)
  qed
  have c: "api calls (buildPrompt b) = Text text \<and> \<not> plainFirstLine text
              \<and> \<not> startsWithMarker text
              \<longrightarrow> generateTale api calls b =
                    (Suc calls,
                     Inr \<lparr>pv_title = js ''Untitled Tale'', pv_content = text,
                          pv_ageRange = interpolate (g_ageRange b),
                          pv_topic = interpolate (g_topic b)\<rparr>)"
  proof
    assume h: "api calls (buildPrompt b) = Text text \<and> \<not> plainFirstLine text
               \<and> \<not> startsWithMarker text"
    then have "extractTale text = (js ''Untitled Tale'', text)" by (simp add: extractTale_broken)
    with h assms show "generateTale api calls b =
                    (Suc calls,
                     Inr \<lparr>pv_title = js ''Untitled Tale'', pv_content = text,
                          pv_ageRange = interpolate (g_ageRange b),
                          pv_topic = interpolate (g_topic b)\<rparr>)"
      by (simp add: generateTale_def)
  qed
  from a b c show ?thesis by simp
qed

lemmas text_simps = js_def trim_def isWhiteSpace_def isLineTerminator_def firstLine_def
  afterFirstLine_def stripHeadingMarker_def plainFirstLine_def startsWithMarker_def
  headingFilled_def

theorem generateTale_parses_witness:
  "truthy (g_ageRange foxRequest) \<and> truthy (g_topic foxRequest)
   \<and> plainFirstLine markdownText \<and> headingFilled markdownText
   \<and> generateTale markdownApi 0 foxRequest =
       (1, Inr \<lparr>pv_title = js ''The Fox'', pv_content = js ''Once upon a time.'',
                pv_ageRange = js ''5-7'', pv_topic = js ''animals''\<rparr>)
   \<and> failingApi 0 (buildPrompt foxRequest) = Failed
   \<and> generateTale failingApi 0 foxRequest = (1, Inl GenerationFailed)
   \<and> \<not> plainFirstLine crlfText \<and> \<not> startsWithMarker crlfText
   \<and> generateTale crlfApi 7 foxRequest =
       (8, Inr \<lparr>pv_title = js ''Untitled Tale'', pv_content = crlfText,
                pv_ageRange = js ''5-7'', pv_topic = js ''animals''\<rparr>)"
proof -
  have t: "truthy (g_ageRange foxRequest)" "truthy (g_topic foxRequest)"
    by (simp_all add: truthy_def foxRequest_def js_def)
  have i: "interpolate (g_ageRange foxRequest) = js ''5-7''"
    "interpolate (g_topic foxRequest) = js ''animals''"
    by (simp_all add: interpolate_def foxRequest_def)
  have m: "plainFirstLine markdownText" "headingFilled markdownText"
    by (simp_all add: markdownText_def text_simps)
  have v: "trim (stripHeadingMarker (firstLine markdownText)) = js ''The Fox''"
    "trim (afterFirstLine markdownText) = js ''Once upon a time.''"
    by (simp_all add: markdownText_def text_simps)
  have k: "\<not> plainFirstLine crlfText" "\<not> startsWithMarker crlfText"
    by (simp_all add: crlfText_def text_simps)
  have api: "markdownApi 0 (buildPrompt foxRequest) = Text markdownText"
    "failingApi 0 (buildPrompt foxRequest) = Failed"
    "crlfApi 7 (buildPrompt foxRequest) = Text crlfText"
    by (simp_all add: markdownApi_def failingApi_def crlfApi_def)
  from generateTale_parses [OF t, of markdownApi 0 markdownText]
    generateTale_parses [OF t, of failingApi 0 markdownText]
    generateTale_parses [OF t, of crlfApi 7 crlfText] t i m v k api
  show ?thesis by simp
qed

text \<open>
  The claim as it is worded fails on a text whose lines end in carriage return and line
  feed: the title answered is not its first line, and the content is the whole text.
\<close>

theorem generateTale_parses_counterexample:
  "generateTale crlfApi 0 foxRequest =
     (1, Inr \<lparr>pv_title = js ''Untitled Tale'', pv_content = crlfText,
              pv_ageRange = js ''5-7'', pv_topic = js ''animals''\<rparr>)
   \<and> spec_extractTale crlfText = (js ''The Fox'', js ''Once upon a time.'')
   \<and> js ''Untitled Tale'' \<noteq> js ''The Fox'' \<and> crlfText \<noteq> js ''Once upon a time.''"
proof -
  have e: "extractTale crlfText = (js ''Untitled Tale'', crlfText)"
    by (simp add: extractTale_def titleMatch_def matchHeading_def matchLine_def crlfText_def
        isLineTerminator_def js_def)
  have g: "generateTale crlfApi 0 foxRequest =
     (1, Inr \<lparr>pv_title = js ''Untitled Tale'', pv_content = crlfText,
              pv_ageRange = js ''5-7'', pv_topic = js ''animals''\<rparr>)"
    by (simp add: generateTale_def truthy_def foxRequest_def crlfApi_def e interpolate_def js_def)
  have s: "spec_extractTale crlfText = (js ''The Fox'', js ''Once upon a time.'')"
    by (simp add: spec_extractTale_def crlfText_def text_simps)
  have n: "js ''Untitled Tale'' \<noteq> js ''The Fox''" "crlfText \<noteq> js ''Once upon a time.''"
    by (simp_all add: crlfText_def js_def)
  from g s n show ?thesis by simp
qed

section \<open>Toggles that overlap\<close>

lemma likeTale_read_save: "likeTale_save s i u (likeTale_read s i) = likeTale s i u"
  by (simp add: likeTale_save_def likeTale_read_def likeTale_def Let_def split: option.splits)

lemma likeTale_save_like:
  assumes "isPublic t" and "u \<notin> set (likedBy t)" and "findById s i = Some cur"
  shows "likeTale_save s i u (Some (t, v)) =
           (save s i (cur\<lparr>likes := addNumber (likes t) 1, likedBy := likedBy cur @ [u]\<rparr>),
            Inr (True, addNumber (likes t) 1))"
proof -
  from assms(2) have "indexOf (likedBy t) u = - 1" by (simp add: indexOf_absent)
  with assms(1,3) show ?thesis by (simp add: likeTale_save_def Let_def)
qed

text \<open>
  C9, as the code has it. A toggle is a read followed by a save of what was computed from
  the copy read, not one atomic update. Two users, neither listed, like a public tale
  whose count is a whole number \<open>n\<close> between \<open>- (2 ^ 53)\<close> and \<open>2 ^ 53 - 2\<close>. When the second
  reads after the first has saved, both are listed and the count is \<open>n + 2\<close>. When both
  read before either saves, both are listed all the same, each is answered the count
  \<open>n + 1\<close>, and \<open>n + 1\<close> is the count that stays.
\<close>

theorem likeTale_in_turn:
  assumes "findById s i = Some t" and "isPublic t" and "a \<noteq> b"
    and "a \<notin> set (likedBy t)" and "b \<notin> set (likedBy t)"
    and "likes t = Finite (of_int n)" and "- (2 ^ 53) \<le> n" and "n + 2 \<le> 2 ^ 53"
  shows "findById
           (fst (likeTale_save (fst (likeTale_save s i a (likeTale_read s i))) i b
                   (likeTale_read (fst (likeTale_save s i a (likeTale_read s i))) i))) i
         = Some (t\<lparr>likes := Finite (of_int (n + 2)), likedBy := likedBy t @ [a, b]\<rparr>)
       \<and> findById
           (fst (likeTale_save (fst (likeTale_save s i a (likeTale_read s i))) i b
                   (likeTale_read s i))) i
         = Some (t\<lparr>likes := Finite (of_int (n + 1)), likedBy := likedBy t @ [a, b]\<rparr>)
       \<and> snd (likeTale_save s i a (likeTale_read s i)) = Inr (True, Finite (of_int (n + 1)))
       \<and> snd (likeTale_save (fst (likeTale_save s i a (likeTale_read s i))) i b
                (likeTale_read s i))
         = Inr (True, Finite (of_int (n + 1)))"
proof -
  let ?t1 = "t\<lparr>likes := Finite (of_int (n + 1)), likedBy := likedBy t @ [a]\<rparr>"
  have up1: "addNumber (likes t) 1 = Finite (of_int (n + 1))"
    unfolding assms(6) by (rule addNumber_up) (use assms(7,8) in simp_all)
  have l1: "likes ?t1 = Finite (of_int (n + 1))" by simp
  have a2: "addNumber (Finite (of_int (n + 1))) 1 = Finite (of_int (n + 1 + 1))"
    by (rule addNumber_up) (use assms(7,8) in simp_all)
  have e2: "n + 1 + 1 = n + 2" by simp
  have up2: "addNumber (likes ?t1) 1 = Finite (of_int (n + 2))"
    by (simp only: l1 a2 e2)
  have r0: "likeTale_read s i = Some (t, versions s i)"
    using assms(1) by (simp add: likeTale_read_def)
  have first: "likeTale_save s i a (likeTale_read s i)
                 = (save s i ?t1, Inr (True, Finite (of_int (n + 1))))"
    unfolding r0 using likeTale_save_like [OF assms(2,4,1), of "versions s i"] assms(1)
    by (simp only: up1) simp?
  have f1: "findById (save s i ?t1) i = Some ?t1" by (simp add: findById_save)
  have r1: "likeTale_read (save s i ?t1) i = Some (?t1, versions (save s i ?t1) i)"
    using f1 by (simp add: likeTale_read_def)
  have p1: "isPublic ?t1" using assms(2) by simp
  have o1: "b \<notin> set (likedBy ?t1)" using assms(3,5) by auto
  have turn: "likeTale_save (save s i ?t1) i b (likeTale_read (save s i ?t1) i)
                = (save (save s i ?t1) i
                     (t\<lparr>likes := Finite (of_int (n + 2)), likedBy := likedBy t @ [a, b]\<rparr>),
                   Inr (True, Finite (of_int (n + 2))))"
    unfolding r1 using likeTale_save_like [OF p1 o1 f1, of "versions (save s i ?t1) i"]
    by (simp only: up2) simp?
  have stale: "likeTale_save (save s i ?t1) i b (likeTale_read s i)
                = (save (save s i ?t1) i
                     (t\<lparr>likes := Finite (of_int (n + 1)), likedBy := likedBy t @ [a, b]\<rparr>),
                   Inr (True, Finite (of_int (n + 1))))"
    unfolding r0 using likeTale_save_like [OF assms(2,5) f1, of "versions s i"]
    by (simp only: up1) simp?
  from first turn stale show ?thesis by (simp add: findById_save)
qed

theorem likeTale_in_turn_witness:
  "findById created 0 = Some owl \<and> isPublic owl \<and> (2::nat) \<noteq> 3
   \<and> 2 \<notin> set (likedBy owl) \<and> 3 \<notin> set (likedBy owl)
   \<and> likes owl = Finite (of_int 0) \<and> - (2 ^ 53) \<le> (0 :: int) \<and> (0 :: int) + 2 \<le> 2 ^ 53
   \<and> findById
        (fst (likeTale_save (fst (likeTale_save created 0 2 (likeTale_read created 0))) 0 3
                (likeTale_read (fst (likeTale_save created 0 2 (likeTale_read created 0))) 0))) 0
      = Some (owl\<lparr>likes := Finite 2, likedBy := [2, 3]\<rparr>)
   \<and> findById (raced created) 0 = Some (owl\<lparr>likes := Finite 1, likedBy := [2, 3]\<rparr>)"
proof -
  have p: "isPublic owl" and l: "likedBy owl = []" and k: "likes owl = Finite (of_int 0)"
    by (simp_all add: owl_def)
  have d: "(2::nat) \<noteq> 3" by simp
  have o: "2 \<notin> set (likedBy owl)" "3 \<notin> set (likedBy owl)" by (simp_all add: l)
  have b: "- (2 ^ 53) \<le> (0 :: int)" "(0 :: int) + 2 \<le> 2 ^ 53" by simp_all
  from likeTale_in_turn [OF created_owl p d o k b] created_owl p d o k b l
  show ?thesis by (simp add: raced_def)
qed

text \<open>
  The claim as it is worded fails when both handlers read tale 0 before either saves:
  each computes the count 1 from its copy and is answered \<^verbatim>\<open>likes: 1\<close>, and the tale ends
  with two likers and the count 1.
\<close>

theorem likeTale_lost_update:
  "map_option likes (findById created 0) = Some (Finite 0)
   \<and> snd (likeTale_save created 0 2 (likeTale_read created 0)) = Inr (True, Finite 1)
   \<and> snd (likeTale_save (fst (likeTale_save created 0 2 (likeTale_read created 0))) 0 3
            (likeTale_read created 0)) = Inr (True, Finite 1)
   \<and> map_option likes (findById (raced created) 0) = Some (Finite 1)
   \<and> map_option likedBy (findById (raced created) 0) = Some [2, 3]"
proof -
  have z: "toDouble 1 = Finite 1" using toDouble_int [of 1] by simp
  have r: "likeTale_read created 0 = Some (owl, versions created 0)"
    using created_owl by (simp add: likeTale_read_def)
  have p: "isPublic owl" "likedBy owl = []" "likes owl = Finite 0" by (simp_all add: owl_def)
  have one: "likeTale_save created 0 2 (Some (owl, versions created 0))
               = (save created 0 (owl\<lparr>likes := Finite 1, likedBy := [2]\<rparr>), Inr (True, Finite 1))"
    using created_owl p by (simp add: likeTale_save_def z Let_def)
  have two: "likeTale_save (save created 0 (owl\<lparr>likes := Finite 1, likedBy := [2]\<rparr>)) 0 3
               (Some (owl, versions created 0))
             = (save (save created 0 (owl\<lparr>likes := Finite 1, likedBy := [2]\<rparr>)) 0
                  (owl\<lparr>likes := Finite 1, likedBy := [2, 3]\<rparr>), Inr (True, Finite 1))"
    using p by (simp add: likeTale_save_def findById_save z Let_def)
  from created_owl r one two p show ?thesis by (simp add: raced_def findById_save)
qed


end
